theory Spec2Isabelle
  imports Main "HOL-Library.Sublist" "HOL-Library.Multiset" "HOL-Library.AList"
begin

section \<open>Data model\<close>

text \<open>
  The server of \<^verbatim>\<open>src/src/client.js\<close> keeps no state of its own: every tool method reads
  the notebook with \<^verbatim>\<open>fs.readJson\<close>, works on the decoded object, and writes it back with
  \<^verbatim>\<open>fs.writeJson\<close> as its last statement before returning. A mutating method is modelled as
  a function from the decoded notebook (and the tool arguments) to a pair: the outcome
  (\<open>Inl\<close> the error thrown, \<open>Inr ()\<close> a normal return) and the in-memory notebook at the
  moment the method throws or writes. The text of the success message is not modelled.

  JSON values are a datatype; numbers are restricted to integers, which is all the code
  itself ever produces. Strings are lists of 8-bit code units.
\<close>

datatype json =
    JNull
  | JBool bool
  | JNum int
  | JStr string
  | JArr "json list"
  | JObj "(string \<times> json) list"

type_synonym obj = "(string \<times> json) list"

text \<open>A cell's \<^verbatim>\<open>source\<close> is a single string or an array of line fragments.\<close>

datatype source_field = Str string | Frags "string list"

text \<open>
  A cell is a JSON object with optional keys: \<open>None\<close> is an absent key,
  \<open>Some JNull\<close> the value \<^verbatim>\<open>null\<close>. \<^verbatim>\<open>cell_type\<close> is a plain string: nothing in the
  methods restricts it to the three values of the tool schema.
\<close>

record cell =
  cell_type :: string
  metadata :: "obj option"
  source :: source_field
  execution_count :: "json option"
  outputs :: "json option"

record notebook =
  cells :: "cell list"
  nb_metadata :: obj
  nbformat :: int
  nbformat_minor :: int

datatype error =
    CellIndexOutOfBounds int      \<comment> \<open>\<^verbatim>\<open>Cell index ${cellIndex} out of bounds\<close>\<close>
  | MoveIndexOutOfBounds          \<comment> \<open>\<^verbatim>\<open>Cell index out of bounds\<close>\<close>
  | LineNumberOutOfBounds int     \<comment> \<open>\<^verbatim>\<open>Line number ${lineNumber} out of bounds\<close>\<close>
  | CannotMerge                   \<comment> \<open>\<^verbatim>\<open>Cannot merge: cell index out of bounds or no next cell\<close>\<close>
  | NotACodeCell int              \<comment> \<open>\<^verbatim>\<open>Cell ${cellIndex} is not a code cell\<close>\<close>

type_synonym result = "(error + unit) \<times> notebook"

section \<open>JavaScript primitives used by the methods\<close>

text \<open>
  \<^verbatim>\<open>Array.prototype.splice(start, deleteCount, ...items)\<close>: a negative \<open>start\<close> counts
  from the end and is clamped at 0, a \<open>start\<close> beyond the length is clamped to the length,
  and \<open>deleteCount\<close> is clamped to what is left. The result is the removed elements and
  the array after the call.
\<close>

definition splice :: "'a list \<Rightarrow> int \<Rightarrow> nat \<Rightarrow> 'a list \<Rightarrow> 'a list \<times> 'a list" where
  "splice xs start deleteCount items =
     (let len = int (length xs);
          s = nat (if start < 0 then max (len + start) 0 else min start len);
          d = min deleteCount (length xs - s)
      in (take d (drop s xs), take s xs @ items @ drop (s + d) xs))"

text \<open>\<^verbatim>\<open>Array.prototype.join(sep)\<close> on an array of strings.\<close>

fun join :: "string \<Rightarrow> string list \<Rightarrow> string" where
  "join sep [] = []"
| "join sep [l] = l"
| "join sep (l # ls) = l @ sep @ join sep ls"

text \<open>
  \<^verbatim>\<open>String.prototype.split(c)\<close> for a separator of one character: the empty string
  gives one empty piece, and \<open>n\<close> separators give \<open>n + 1\<close> pieces.
\<close>

fun split_on :: "char \<Rightarrow> string \<Rightarrow> string list" where
  "split_on sep [] = [[]]"
| "split_on sep (c # cs) =
     (if c = sep then [] # split_on sep cs
      else (case split_on sep cs of
              [] \<Rightarrow> [[c]]
            | l # ls \<Rightarrow> (c # l) # ls))"

abbreviation LF :: char where
  "LF \<equiv> CHR 0x0A"

text \<open>\<^verbatim>\<open>Array.isArray(cell.source) ? cell.source.join('') : cell.source\<close>\<close>

fun normalize :: "source_field \<Rightarrow> string" where
  "normalize (Frags fs) = join [] fs"
| "normalize (Str s) = s"

text \<open>
  The order in which an object enumerates its own keys: first the keys that are array
  indices (the decimal numeral, without leading zeros, of a number below \<open>2\<^sup>3\<^sup>2 - 1\<close>) in
  ascending numeric order, then the other keys in the order of their creation.
\<close>

definition is_digit :: "char \<Rightarrow> bool" where
  "is_digit c = (let n = (of_char c :: nat) in 48 \<le> n \<and> n \<le> 57)"

definition int_of_digits :: "string \<Rightarrow> int" where
  "int_of_digits k = foldl (\<lambda>n c. 10 * n + (of_char c - 48)) 0 k"

definition is_array_index :: "string \<Rightarrow> bool" where
  "is_array_index k =
     (k \<noteq> [] \<and> list_all is_digit k \<and> (k = ''0'' \<or> hd k \<noteq> CHR ''0'')
      \<and> int_of_digits k \<le> 4294967294)"

definition own_keys_order :: "obj \<Rightarrow> obj" where
  "own_keys_order xs =
     sort_key (\<lambda>(k, v). int_of_digits k) (filter (\<lambda>(k, v). is_array_index k) xs)
     @ filter (\<lambda>(k, v). \<not> is_array_index k) xs"

text \<open>
  \<^verbatim>\<open>{ ...a, ...b }\<close>: the keys of \<open>a\<close>, overwritten by and then extended with those of \<open>b\<close>,
  enumerated in the order of a new object.
\<close>

definition spread :: "obj \<Rightarrow> obj \<Rightarrow> obj" where
  "spread a b = own_keys_order (fold (\<lambda>(k, v). AList.update k v) b a)"

section \<open>Mutating tool methods\<close>

text \<open>
  The object literal that \<^verbatim>\<open>addCell\<close>, \<^verbatim>\<open>splitCell\<close> and \<^verbatim>\<open>bulkAddCells\<close> each build:
  empty metadata, the given source, and the two execution fields for a code cell only.
\<close>

definition make_cell :: "string \<Rightarrow> string \<Rightarrow> cell" where
  "make_cell cellType src =
     (let newCell = \<lparr>cell_type = cellType, metadata = Some [], source = Str src,
                      execution_count = None, outputs = None\<rparr>
      in if cellType = ''code''
         then newCell\<lparr>execution_count := Some JNull, outputs := Some (JArr [])\<rparr>
         else newCell)"

definition addCell :: "notebook \<Rightarrow> string \<Rightarrow> string \<Rightarrow> int \<Rightarrow> result" where
  "addCell nb cellType src index =
     (let newCell = make_cell cellType src
      in (Inr (), nb\<lparr>cells := snd (splice (cells nb) (index + 1) 0 [newCell])\<rparr>))"

definition editCell :: "notebook \<Rightarrow> int \<Rightarrow> string \<Rightarrow> result" where
  "editCell nb cellIndex newSource =
     (if cellIndex \<ge> int (length (cells nb)) \<or> cellIndex < 0
      then (Inl (CellIndexOutOfBounds cellIndex), nb)
      else let i = nat cellIndex
           in (Inr (), nb\<lparr>cells := (cells nb)[i := (cells nb ! i)\<lparr>source := Str newSource\<rparr>]\<rparr>))"

definition deleteCell :: "notebook \<Rightarrow> int \<Rightarrow> result" where
  "deleteCell nb cellIndex =
     (if cellIndex \<ge> int (length (cells nb)) \<or> cellIndex < 0
      then (Inl (CellIndexOutOfBounds cellIndex), nb)
      else (Inr (), nb\<lparr>cells := snd (splice (cells nb) cellIndex 1 [])\<rparr>))"

definition changeCellType :: "notebook \<Rightarrow> int \<Rightarrow> string \<Rightarrow> result" where
  "changeCellType nb cellIndex newType =
     (if cellIndex \<ge> int (length (cells nb)) \<or> cellIndex < 0
      then (Inl (CellIndexOutOfBounds cellIndex), nb)
      else let i = nat cellIndex;
               cell1 = (cells nb ! i)\<lparr>cell_type := newType\<rparr>;
               cell2 = (if newType = ''code''
                        then cell1\<lparr>execution_count := Some JNull, outputs := Some (JArr [])\<rparr>
                        else cell1\<lparr>execution_count := None, outputs := None\<rparr>)
           in (Inr (), nb\<lparr>cells := (cells nb)[i := cell2]\<rparr>))"

text \<open>
  \<^verbatim>\<open>JSON.parse(JSON.stringify(x))\<close> rebuilds a JSON value from its text: on a value that
  was itself decoded from JSON this is a new, equal value that shares nothing with \<open>x\<close>.
  In a model of values a copy is the value itself.
\<close>

definition json_copy :: "cell \<Rightarrow> cell" where
  "json_copy c = c"

text \<open>The body of the \<^verbatim>\<open>for (let i = 0; i < count; i++)\<close> loop of \<^verbatim>\<open>duplicateCell\<close>.\<close>

function duplicate_loop :: "cell \<Rightarrow> int \<Rightarrow> int \<Rightarrow> int \<Rightarrow> cell list \<Rightarrow> cell list" where
  "duplicate_loop originalCell cellIndex cnt i cs =
     (if i < cnt
      then let duplicatedCell0 = json_copy originalCell;
               duplicatedCell =
                 (if cell_type duplicatedCell0 = ''code''
                  then duplicatedCell0\<lparr>execution_count := Some JNull, outputs := Some (JArr [])\<rparr>
                  else duplicatedCell0)
           in duplicate_loop originalCell cellIndex cnt (i + 1)
                (snd (splice cs (cellIndex + 1 + i) 0 [duplicatedCell]))
      else cs)"
  by pat_completeness auto
termination
  by (relation "measure (\<lambda>(originalCell, cellIndex, cnt, i, cs). nat (cnt - i))") auto

declare duplicate_loop.simps [simp del]

definition duplicateCell :: "notebook \<Rightarrow> int \<Rightarrow> int \<Rightarrow> result" where
  "duplicateCell nb cellIndex cnt =
     (if cellIndex \<ge> int (length (cells nb)) \<or> cellIndex < 0
      then (Inl (CellIndexOutOfBounds cellIndex), nb)
      else let originalCell = json_copy (cells nb ! nat cellIndex)
           in (Inr (), nb\<lparr>cells := duplicate_loop originalCell cellIndex cnt 0 (cells nb)\<rparr>))"

definition editMetadata :: "notebook \<Rightarrow> obj \<Rightarrow> result" where
  "editMetadata nb md = (Inr (), nb\<lparr>nb_metadata := spread (nb_metadata nb) md\<rparr>)"

text \<open>Spreading an absent (\<^verbatim>\<open>undefined\<close>) metadata object contributes no key.\<close>

definition editCellMetadata :: "notebook \<Rightarrow> int \<Rightarrow> obj \<Rightarrow> result" where
  "editCellMetadata nb cellIndex md =
     (if cellIndex \<ge> int (length (cells nb)) \<or> cellIndex < 0
      then (Inl (CellIndexOutOfBounds cellIndex), nb)
      else let i = nat cellIndex;
               old = (case metadata (cells nb ! i) of None \<Rightarrow> [] | Some m \<Rightarrow> m)
           in (Inr (), nb\<lparr>cells := (cells nb)[i := (cells nb ! i)\<lparr>metadata := Some (spread old md)\<rparr>]\<rparr>))"

text \<open>The statement both \<^verbatim>\<open>clearCellOutputs\<close> and \<^verbatim>\<open>clearAllOutputs\<close> apply to a cell.\<close>

definition clear_cell :: "cell \<Rightarrow> cell" where
  "clear_cell c =
     (if cell_type c = ''code''
      then c\<lparr>outputs := Some (JArr []), execution_count := Some JNull\<rparr>
      else c)"

definition clearCellOutputs :: "notebook \<Rightarrow> int \<Rightarrow> result" where
  "clearCellOutputs nb cellIndex =
     (if cellIndex \<ge> int (length (cells nb)) \<or> cellIndex < 0
      then (Inl (CellIndexOutOfBounds cellIndex), nb)
      else let i = nat cellIndex
           in (Inr (), nb\<lparr>cells := (cells nb)[i := clear_cell (cells nb ! i)]\<rparr>))"

definition clearAllOutputs :: "notebook \<Rightarrow> result" where
  "clearAllOutputs nb = (Inr (), nb\<lparr>cells := map clear_cell (cells nb)\<rparr>)"

text \<open>
  \<^verbatim>\<open>moveCell\<close>: \<^verbatim>\<open>splice(fromIndex, 1)[0]\<close> is the removed cell. Under the bounds check
  one cell is always removed; with none removed JavaScript would insert \<^verbatim>\<open>undefined\<close>,
  which the second branch of the case stands for by inserting nothing.
\<close>

definition moveCell :: "notebook \<Rightarrow> int \<Rightarrow> int \<Rightarrow> result" where
  "moveCell nb fromIndex toIndex =
     (if fromIndex \<ge> int (length (cells nb)) \<or> fromIndex < 0
         \<or> toIndex \<ge> int (length (cells nb)) \<or> toIndex < 0
      then (Inl MoveIndexOutOfBounds, nb)
      else let (removed, cs1) = splice (cells nb) fromIndex 1 []
           in (case removed of
                 c # _ \<Rightarrow> (Inr (), nb\<lparr>cells := snd (splice cs1 toIndex 0 [c])\<rparr>)
               | [] \<Rightarrow> (Inr (), nb\<lparr>cells := cs1\<rparr>)))"

definition splitCell :: "notebook \<Rightarrow> int \<Rightarrow> int \<Rightarrow> result" where
  "splitCell nb cellIndex lineNumber =
     (if cellIndex \<ge> int (length (cells nb)) \<or> cellIndex < 0
      then (Inl (CellIndexOutOfBounds cellIndex), nb)
      else let i = nat cellIndex;
               cell0 = cells nb ! i;
               src = normalize (source cell0);
               lines = split_on LF src
           in if lineNumber \<ge> int (length lines) \<or> lineNumber < 0
              then (Inl (LineNumberOutOfBounds lineNumber), nb)
              else let firstPart = join [LF] (take (nat lineNumber) lines);
                       secondPart = join [LF] (drop (nat lineNumber) lines);
                       cs1 = (cells nb)[i := cell0\<lparr>source := Str firstPart\<rparr>];
                       newCell = make_cell (cell_type cell0) secondPart
                   in (Inr (), nb\<lparr>cells := snd (splice cs1 (cellIndex + 1) 0 [newCell])\<rparr>))"

definition mergeCells :: "notebook \<Rightarrow> int \<Rightarrow> result" where
  "mergeCells nb cellIndex =
     (if cellIndex \<ge> int (length (cells nb)) - 1 \<or> cellIndex < 0
      then (Inl CannotMerge, nb)
      else let i = nat cellIndex;
               currentCell = cells nb ! i;
               nextCell = cells nb ! (i + 1);
               currentSource = normalize (source currentCell);
               nextSource = normalize (source nextCell);
               cs1 = (cells nb)[i := currentCell\<lparr>source := Str (currentSource @ [LF] @ nextSource)\<rparr>]
           in (Inr (), nb\<lparr>cells := snd (splice cs1 (cellIndex + 1) 1 [])\<rparr>))"

definition editCellOutput :: "notebook \<Rightarrow> int \<Rightarrow> json \<Rightarrow> result" where
  "editCellOutput nb cellIndex outs =
     (if cellIndex \<ge> int (length (cells nb)) \<or> cellIndex < 0
      then (Inl (CellIndexOutOfBounds cellIndex), nb)
      else let i = nat cellIndex; cell0 = cells nb ! i
           in if cell_type cell0 \<noteq> ''code''
              then (Inl (NotACodeCell cellIndex), nb)
              else (Inr (), nb\<lparr>cells := (cells nb)[i := cell0\<lparr>outputs := Some outs\<rparr>]\<rparr>))"

definition bulkAddCells :: "notebook \<Rightarrow> (string \<times> string) list \<Rightarrow> int \<Rightarrow> result" where
  "bulkAddCells nb cellData index =
     (let newCells = map (\<lambda>(ct, src). make_cell ct src) cellData
      in (Inr (), nb\<lparr>cells := snd (splice (cells nb) (index + 1) 0 newCells)\<rparr>))"

text \<open>
  The cases of the \<^verbatim>\<open>CallToolRequestSchema\<close> handler that change a notebook, with the
  arguments each passes on. \<^verbatim>\<open>count\<close> is optional in the schema of
  \<^verbatim>\<open>notebook_duplicate_cell\<close>, so it is an option here.
\<close>

datatype request =
    Notebook_add_cell string string int
  | Notebook_edit_cell int string
  | Notebook_delete_cell int
  | Notebook_change_cell_type int string
  | Notebook_duplicate_cell int "int option"
  | Notebook_edit_metadata obj
  | Notebook_edit_cell_metadata int obj
  | Notebook_clear_cell_outputs int
  | Notebook_clear_all_outputs
  | Notebook_move_cell int int
  | Notebook_split_cell int int
  | Notebook_merge_cells int
  | Notebook_edit_cell_output int json
  | Notebook_bulk_add_cells "(string \<times> string) list" int

text \<open>\<^verbatim>\<open>args.count || 1\<close>: an absent count and the count 0 are both falsy.\<close>

definition count_or_1 :: "int option \<Rightarrow> int" where
  "count_or_1 c = (case c of None \<Rightarrow> 1 | Some n \<Rightarrow> if n = 0 then 1 else n)"

fun call_tool :: "notebook \<Rightarrow> request \<Rightarrow> result" where
  "call_tool nb (Notebook_add_cell cellType src index) = addCell nb cellType src index"
| "call_tool nb (Notebook_edit_cell cellIndex newSource) = editCell nb cellIndex newSource"
| "call_tool nb (Notebook_delete_cell cellIndex) = deleteCell nb cellIndex"
| "call_tool nb (Notebook_change_cell_type cellIndex newType) = changeCellType nb cellIndex newType"
| "call_tool nb (Notebook_duplicate_cell cellIndex c) = duplicateCell nb cellIndex (count_or_1 c)"
| "call_tool nb (Notebook_edit_metadata md) = editMetadata nb md"
| "call_tool nb (Notebook_edit_cell_metadata cellIndex md) = editCellMetadata nb cellIndex md"
| "call_tool nb (Notebook_clear_cell_outputs cellIndex) = clearCellOutputs nb cellIndex"
| "call_tool nb Notebook_clear_all_outputs = clearAllOutputs nb"
| "call_tool nb (Notebook_move_cell fromIndex toIndex) = moveCell nb fromIndex toIndex"
| "call_tool nb (Notebook_split_cell cellIndex lineNumber) = splitCell nb cellIndex lineNumber"
| "call_tool nb (Notebook_merge_cells cellIndex) = mergeCells nb cellIndex"
| "call_tool nb (Notebook_edit_cell_output cellIndex outs) = editCellOutput nb cellIndex outs"
| "call_tool nb (Notebook_bulk_add_cells cellData index) = bulkAddCells nb cellData index"

section \<open>Strings and regular expressions of the query methods\<close>

text \<open>\<^verbatim>\<open>String.prototype.includes\<close>: the argument occurs as a contiguous substring.\<close>

fun includes_str :: "string \<Rightarrow> string \<Rightarrow> bool" where
  "includes_str [] q = (q = [])"
| "includes_str (c # cs) q = (prefix q (c # cs) \<or> includes_str cs q)"

text \<open>\<^verbatim>\<open>String.prototype.toLowerCase\<close> on code units below 256: the letters A to Z and the
  upper-case letters of Latin-1 move up by 32, everything else stays.\<close>

definition to_lower_char :: "char \<Rightarrow> char" where
  "to_lower_char c =
     (let n = (of_char c :: nat)
      in if (65 \<le> n \<and> n \<le> 90) \<or> (192 \<le> n \<and> n \<le> 222 \<and> n \<noteq> 215)
         then char_of (n + 32) else c)"

definition toLowerCase :: "string \<Rightarrow> string" where
  "toLowerCase s = map to_lower_char s"

text \<open>The classes \<^verbatim>\<open>\s\<close> and \<^verbatim>\<open>\w\<close> and the line terminators, on code units below 256.\<close>

definition is_space :: "char \<Rightarrow> bool" where
  "is_space c = (let n = (of_char c :: nat) in (9 \<le> n \<and> n \<le> 13) \<or> n = 32 \<or> n = 160)"

definition is_word :: "char \<Rightarrow> bool" where
  "is_word c =
     (let n = (of_char c :: nat)
      in (48 \<le> n \<and> n \<le> 57) \<or> (65 \<le> n \<and> n \<le> 90) \<or> n = 95 \<or> (97 \<le> n \<and> n \<le> 122))"

definition is_line_terminator :: "char \<Rightarrow> bool" where
  "is_line_terminator c = (c = LF \<or> c = CHR 0x0D)"

text \<open>\<^verbatim>\<open>String.prototype.trim\<close>\<close>

definition trim :: "string \<Rightarrow> string" where
  "trim s = rev (dropWhile is_space (rev (dropWhile is_space s)))"

text \<open>
  A regular expression \<^verbatim>\<open>/^.../m\<close> given to \<^verbatim>\<open>String.prototype.match\<close>: the first
  position, from the left, that is the start of the input or follows a line terminator
  and where the rest of the expression matches. The first argument matches the rest of
  the expression at the head of a string and returns the capture group.
\<close>

fun match_multiline :: "(string \<Rightarrow> string option) \<Rightarrow> bool \<Rightarrow> string \<Rightarrow> string option" where
  "match_multiline m at_start [] = (if at_start then m [] else None)"
| "match_multiline m at_start (c # cs) =
     (case (if at_start then m (c # cs) else None) of
        Some r \<Rightarrow> Some r
      | None \<Rightarrow> match_multiline m (is_line_terminator c) cs)"

text \<open>
  \<^verbatim>\<open>def\s+(\w+)\<close> and \<^verbatim>\<open>class\s+(\w+)\<close> at the head of a string: the keyword, the longest
  run of white space, the longest run of word characters, both runs non-empty. The two
  classes are disjoint, so giving back white space never helps the match.
\<close>

definition match_keyword_at :: "string \<Rightarrow> string \<Rightarrow> string option" where
  "match_keyword_at kw s =
     (if prefix kw s
      then let rest = drop (length kw) s;
               ws = takeWhile is_space rest;
               name = takeWhile is_word (dropWhile is_space rest)
           in if ws \<noteq> [] \<and> name \<noteq> [] then Some name else None
      else None)"

text \<open>
  \<^verbatim>\<open>#+\s+(.+)\<close> at the head of a string. When the white space is followed by anything,
  that character is not a line terminator and the capture runs to the end of its line.
  When the white space runs to the end of the input, the expression gives back white
  space from the right until the dot finds a character that is not a line terminator.
\<close>

definition match_header_at :: "string \<Rightarrow> string option" where
  "match_header_at s =
     (let hashes = takeWhile (\<lambda>c. c = CHR ''#'') s;
          rest = dropWhile (\<lambda>c. c = CHR ''#'') s;
          ws = takeWhile is_space rest;
          tail = dropWhile is_space rest
      in if hashes = [] \<or> ws = [] then None
         else if tail \<noteq> [] then Some (takeWhile (\<lambda>c. \<not> is_line_terminator c) tail)
         else (case filter (\<lambda>j. \<not> is_line_terminator (ws ! j)) (rev [1..<length ws]) of
                 [] \<Rightarrow> None
               | j # _ \<Rightarrow> Some [ws ! j]))"

text \<open>A natural number in a template literal: its decimal digits.\<close>

fun string_of_nat :: "nat \<Rightarrow> string" where
  "string_of_nat n =
     (if n < 10 then [char_of (48 + n)]
      else string_of_nat (n div 10) @ [char_of (48 + n mod 10)])"

declare string_of_nat.simps [simp del]

section \<open>Query methods\<close>

text \<open>What \<^verbatim>\<open>getOutline\<close> appends to \<^verbatim>\<open>title\<close> after \<^verbatim>\<open>Cell ${index} (${cell.cell_type})\<close>.\<close>

definition title_suffix :: "cell \<Rightarrow> string" where
  "title_suffix c =
     (let src = normalize (source c)
      in if cell_type c = ''markdown''
         then (case match_multiline match_header_at True src of
                 Some h \<Rightarrow> '' - '' @ h
               | None \<Rightarrow> [])
         else if cell_type c = ''code''
         then (let defMatch = match_multiline (match_keyword_at ''def'') True src;
                   classMatch = match_multiline (match_keyword_at ''class'') True src
               in case defMatch of
                    Some n \<Rightarrow> '' - def '' @ n @ ''()''
                  | None \<Rightarrow> (case classMatch of
                               Some n \<Rightarrow> '' - class '' @ n
                             | None \<Rightarrow> []))
         else [])"

definition outline_entry :: "nat \<Rightarrow> cell \<Rightarrow> string" where
  "outline_entry index c =
     (let src = normalize (source c);
          lineCount = length (split_on LF src);
          title = ''Cell '' @ string_of_nat index @ '' ('' @ cell_type c @ '')'' @ title_suffix c
      in title @ '' ('' @ string_of_nat lineCount @ '' lines)'')"

definition getOutline :: "notebook \<Rightarrow> string" where
  "getOutline nb = join [LF] (map (\<lambda>(index, c). outline_entry index c) (enumerate 0 (cells nb)))"

record line_match =
  line_number :: nat
  content :: string

record search_result =
  res_cell_index :: nat
  res_cell_type :: string
  matches :: "line_match list"

definition fold_case :: "bool \<Rightarrow> string \<Rightarrow> string" where
  "fold_case caseSensitive s = (if caseSensitive then s else toLowerCase s)"

definition search_cell :: "string \<Rightarrow> bool \<Rightarrow> nat \<Rightarrow> cell \<Rightarrow> search_result list" where
  "search_cell query caseSensitive index c =
     (let src = normalize (source c);
          searchText = fold_case caseSensitive src;
          searchQuery = fold_case caseSensitive query
      in if includes_str searchText searchQuery
         then let lines = split_on LF src;
                  matchingLines = filter (\<lambda>(line, lineIndex). includes_str (fold_case caseSensitive line) searchQuery)
                                    (zip lines [0..<length lines])
              in [\<lparr>res_cell_index = index, res_cell_type = cell_type c,
                   matches = map (\<lambda>(line, lineIndex). \<lparr>line_number = lineIndex + 1, content = trim line\<rparr>)
                                 matchingLines\<rparr>]
         else [])"

definition searchNotebook :: "notebook \<Rightarrow> string \<Rightarrow> bool \<Rightarrow> search_result list" where
  "searchNotebook nb query caseSensitive =
     concat (map (\<lambda>(index, c). search_cell query caseSensitive index c) (enumerate 0 (cells nb)))"

section \<open>Properties named by the specification\<close>

text \<open>
  The precondition column of the specification's table of mutation operations, in the
  specification's words: an index inside \<open>[0, len)\<close>, for merge inside \<open>[0, len - 1)\<close>,
  for split also a line number inside \<open>[0, lineCount)\<close>, for the edit of outputs also a
  code cell; insert, bulk insert, the clearing of all outputs and the edit of the
  document metadata have none.
\<close>

definition in_bounds :: "notebook \<Rightarrow> int \<Rightarrow> bool" where
  "in_bounds nb i = (0 \<le> i \<and> i < int (length (cells nb)))"

fun spec_precondition :: "notebook \<Rightarrow> request \<Rightarrow> bool" where
  "spec_precondition nb (Notebook_add_cell cellType src index) = True"
| "spec_precondition nb (Notebook_edit_cell i newSource) = in_bounds nb i"
| "spec_precondition nb (Notebook_delete_cell i) = in_bounds nb i"
| "spec_precondition nb (Notebook_change_cell_type i newType) = in_bounds nb i"
| "spec_precondition nb (Notebook_duplicate_cell i c) = in_bounds nb i"
| "spec_precondition nb (Notebook_edit_metadata md) = True"
| "spec_precondition nb (Notebook_edit_cell_metadata i md) = in_bounds nb i"
| "spec_precondition nb (Notebook_clear_cell_outputs i) = in_bounds nb i"
| "spec_precondition nb Notebook_clear_all_outputs = True"
| "spec_precondition nb (Notebook_move_cell f t) = (in_bounds nb f \<and> in_bounds nb t)"
| "spec_precondition nb (Notebook_split_cell i k) =
     (in_bounds nb i \<and> 0 \<le> k
      \<and> k < int (length (split_on LF (normalize (source (cells nb ! nat i))))))"
| "spec_precondition nb (Notebook_merge_cells i) = (0 \<le> i \<and> i < int (length (cells nb)) - 1)"
| "spec_precondition nb (Notebook_edit_cell_output i outs) =
     (in_bounds nb i \<and> cell_type (cells nb ! nat i) = ''code'')"
| "spec_precondition nb (Notebook_bulk_add_cells cellData index) = True"

text \<open>
  The invariant of the specification's data model: a code cell carries both
  \<^verbatim>\<open>execution_count\<close> and \<^verbatim>\<open>outputs\<close>, any other cell carries neither.
\<close>

definition cell_ok :: "cell \<Rightarrow> bool" where
  "cell_ok c =
     (if cell_type c = ''code''
      then execution_count c \<noteq> None \<and> outputs c \<noteq> None
      else execution_count c = None \<and> outputs c = None)"

definition nb_ok :: "notebook \<Rightarrow> bool" where
  "nb_ok nb = list_all cell_ok (cells nb)"

text \<open>What the loop of \<^verbatim>\<open>duplicateCell\<close> inserts for an original cell.\<close>

definition duplicate_of :: "cell \<Rightarrow> cell" where
  "duplicate_of c =
     (if cell_type c = ''code''
      then c\<lparr>execution_count := Some JNull, outputs := Some (JArr [])\<rparr>
      else c)"

text \<open>
  The positions at which \<^verbatim>\<open>^\<close> of a multi-line expression can match, each given as the
  rest of the string from there: the start of the string and the position after every
  line terminator, from left to right. The flag says whether the head of the string is
  such a position.
\<close>

fun line_starts_from :: "bool \<Rightarrow> string \<Rightarrow> string list" where
  "line_starts_from b [] = (if b then [[]] else [])"
| "line_starts_from b (c # cs) =
     (if b then [c # cs] else []) @ line_starts_from (is_line_terminator c) cs"

definition line_starts :: "string \<Rightarrow> string list" where
  "line_starts s = line_starts_from True s"

text \<open>The capture of the first string of a list at whose head the expression matches.\<close>

definition first_match :: "(string \<Rightarrow> string option) \<Rightarrow> string list \<Rightarrow> string option" where
  "first_match m ts = (case List.find (\<lambda>t. m t \<noteq> None) ts of None \<Rightarrow> None | Some t \<Rightarrow> m t)"

section \<open>Example notebooks\<close>

definition ex_code :: cell where
  "ex_code = \<lparr>cell_type = ''code'', metadata = Some [(''tags'', JArr [])],
               source = Str ''a\<newline>b'',
               execution_count = Some (JNum 3), outputs = Some (JArr [JStr ''out''])\<rparr>"

definition ex_md :: cell where
  "ex_md = \<lparr>cell_type = ''markdown'', metadata = Some [],
             source = Frags [''# T\<newline>'', ''x''],
             execution_count = None, outputs = None\<rparr>"

definition ex_nb :: notebook where
  "ex_nb = \<lparr>cells = [ex_code, ex_md], nb_metadata = [], nbformat = 4, nbformat_minor = 4\<rparr>"

definition ex_class_then_def :: cell where
  "ex_class_then_def = \<lparr>cell_type = ''code'', metadata = Some [],
                         source = Str ''class A:\<newline>def f(): pass'',
                         execution_count = Some JNull, outputs = Some (JArr [])\<rparr>"

lemmas ex_defs = ex_nb_def ex_code_def ex_md_def

section \<open>Arrays and strings\<close>

lemma splice_insert:
  "0 \<le> p \<Longrightarrow> p \<le> int (length xs) \<Longrightarrow>
   splice xs p 0 items = ([], take (nat p) xs @ items @ drop (nat p) xs)"
  by (simp add: splice_def Let_def min_def)

lemma splice_delete:
  assumes "0 \<le> p" "p < int (length xs)"
  shows "splice xs p (Suc 0) [] = ([xs ! nat p], take (nat p) xs @ drop (Suc (nat p)) xs)"
proof -
  from assms have lt: "nat p < length xs" by linarith
  then have "min (Suc 0) (length xs - nat p) = Suc 0" by simp
  moreover from lt have "take (Suc 0) (drop (nat p) xs) = [xs ! nat p]"
    by (simp add: take_Suc_conv_app_nth)
  ultimately show ?thesis using assms
    by (simp add: splice_def Let_def)
qed

lemma split_on_nonempty: "split_on c s \<noteq> []"
  by (induction s) (auto split: list.splits)

lemma join_push: "join sep ((a # l) # ls) = a # join sep (l # ls)"
  by (cases ls) simp_all

lemma join_split_on: "join [c] (split_on c s) = s"
proof (induction s)
  case Nil
  then show ?case by simp
next
  case (Cons a s)
  then show ?case
    by (cases "split_on c s") (auto simp: split_on_nonempty join_push)
qed

lemma join_Cons: "ls \<noteq> [] \<Longrightarrow> join sep (l # ls) = l @ sep @ join sep ls"
  by (cases ls) simp_all

lemma join_take_drop:
  "0 < k \<Longrightarrow> k < length ls \<Longrightarrow> join sep (take k ls) @ sep @ join sep (drop k ls) = join sep ls"
proof (induction ls arbitrary: k)
  case Nil
  then show ?case by simp
next
  case (Cons l ls)
  show ?case
  proof (cases k)
    case 0
    with Cons.prems show ?thesis by simp
  next
    case (Suc j)
    show ?thesis
    proof (cases j)
      case 0
      with Suc Cons.prems show ?thesis by (simp add: join_Cons)
    next
      case (Suc j')
      with \<open>k = Suc j\<close> Cons.prems have j: "0 < j" "j < length ls" by simp_all
      then have ne: "take j ls \<noteq> []" "ls \<noteq> []" by auto
      from Cons.IH [OF j] \<open>k = Suc j\<close> ne show ?thesis
        by (simp add: join_Cons)
    qed
  qed
qed


lemma take_Suc_update: "n < length xs \<Longrightarrow> take (Suc n) (xs[n := y]) = take n xs @ [y]"
  by (simp add: take_Suc_conv_app_nth)

lemma make_cell_simps [simp]:
  "cell_type (make_cell t s) = t"
  "source (make_cell t s) = Str s"
  "metadata (make_cell t s) = Some []"
  by (simp_all add: make_cell_def Let_def)

lemma splitCell_ok:
  assumes "0 \<le> i" "i < int (length (cells nb))"
    and "0 \<le> k" "k < int (length (split_on LF (normalize (source (cells nb ! nat i)))))"
  shows "splitCell nb i k =
    (Inr (), nb\<lparr>cells := take (nat i) (cells nb)
       @ [(cells nb ! nat i)\<lparr>source := Str (join [LF] (take (nat k) (split_on LF (normalize (source (cells nb ! nat i))))))\<rparr>,
          make_cell (cell_type (cells nb ! nat i))
            (join [LF] (drop (nat k) (split_on LF (normalize (source (cells nb ! nat i))))))]
       @ drop (Suc (nat i)) (cells nb)\<rparr>)"
proof -
  from assms have n: "nat i < length (cells nb)" by linarith
  from assms have s: "nat (i + 1) = Suc (nat i)" by linarith
  from assms have le: "0 \<le> i + 1" "i + 1 \<le> int (length ((cells nb)[nat i := c']))" for c'
    by simp_all
  show ?thesis using assms n
    by (simp add: splitCell_def Let_def splice_insert [OF le] s take_Suc_update)
qed

lemma mergeCells_ok:
  assumes "0 \<le> i" "i + 1 < int (length (cells nb))"
  shows "mergeCells nb i =
    (Inr (), nb\<lparr>cells := take (nat i) (cells nb)
       @ [(cells nb ! nat i)\<lparr>source := Str (normalize (source (cells nb ! nat i)) @ [LF]
                                               @ normalize (source (cells nb ! Suc (nat i))))\<rparr>]
       @ drop (Suc (Suc (nat i))) (cells nb)\<rparr>)"
proof -
  from assms have n: "nat i < length (cells nb)" by linarith
  from assms have s: "nat (i + 1) = Suc (nat i)" by linarith
  from assms have le: "0 \<le> i + 1" "i + 1 < int (length ((cells nb)[nat i := c']))" for c'
    by simp_all
  show ?thesis using assms n
    by (simp add: mergeCells_def Let_def splice_delete [OF le] s take_Suc_update)
qed

section \<open>Split and merge\<close>

text \<open>
  Claim C1, as amended. For a valid cell index \<open>i\<close> and a line number \<open>k\<close> with
  \<open>0 \<le> k < lineCount\<close>, \<^verbatim>\<open>splitCell\<close> succeeds. For \<open>k \<ge> 1\<close>, \<^verbatim>\<open>mergeCells\<close> at the same
  index then restores the notebook: the cell count, every other cell, and the cell at
  \<open>i\<close> with its type, metadata and execution state, its source being the normalized
  original source. For \<open>k = 0\<close> the split leaves the cell at \<open>i\<close> with the empty source,
  and the merge gives the same notebook except that the source of the cell at \<open>i\<close> is
  one newline followed by the normalized original source.
\<close>

theorem split_then_merge:
  assumes "0 \<le> i" "i < int (length (cells nb))"
    and "0 \<le> k" "k < int (length (split_on LF (normalize (source (cells nb ! nat i)))))"
  shows "fst (splitCell nb i k) = Inr ()
     \<and> (1 \<le> k \<longrightarrow>
          mergeCells (snd (splitCell nb i k)) i =
            (Inr (), nb\<lparr>cells := (cells nb)[nat i :=
               (cells nb ! nat i)\<lparr>source := Str (normalize (source (cells nb ! nat i)))\<rparr>]\<rparr>))
     \<and> (k = 0 \<longrightarrow>
          source (cells (snd (splitCell nb i k)) ! nat i) = Str []
          \<and> mergeCells (snd (splitCell nb i k)) i =
            (Inr (), nb\<lparr>cells := (cells nb)[nat i :=
               (cells nb ! nat i)\<lparr>source := Str ([LF] @ normalize (source (cells nb ! nat i)))\<rparr>]\<rparr>))"
proof -
  let ?cs = "cells nb" and ?n = "nat i"
  let ?c = "?cs ! ?n"
  let ?ls = "split_on LF (normalize (source ?c))"
  let ?first = "join [LF] (take (nat k) ?ls)" and ?second = "join [LF] (drop (nat k) ?ls)"
  let ?cs1 = "take ?n ?cs @ [?c\<lparr>source := Str ?first\<rparr>, make_cell (cell_type ?c) ?second] @ drop (Suc ?n) ?cs"
  let ?merged = "?first @ [LF] @ ?second"
  from assms have n: "?n < length ?cs" by linarith
  have sp: "splitCell nb i k = (Inr (), nb\<lparr>cells := ?cs1\<rparr>)"
    using assms by (intro splitCell_ok) simp_all
  have len: "i + 1 < int (length (cells (nb\<lparr>cells := ?cs1\<rparr>)))"
    using assms n by simp
  have at0: "?cs1 ! ?n = ?c\<lparr>source := Str ?first\<rparr>"
    using n by (simp add: nth_append)
  have at1: "?cs1 ! Suc ?n = make_cell (cell_type ?c) ?second"
    using n by (simp add: nth_append)
  have tk: "take ?n ?cs1 = take ?n ?cs"
    using n by simp
  have dr: "drop (Suc (Suc ?n)) ?cs1 = drop (Suc ?n) ?cs"
    using n by simp
  have c1: "cells (nb\<lparr>cells := ?cs1\<rparr>) = ?cs1" by simp
  have up: "(nb\<lparr>cells := ?cs1\<rparr>)\<lparr>cells := ys\<rparr> = nb\<lparr>cells := ys\<rparr>" for ys by simp
  have "mergeCells (nb\<lparr>cells := ?cs1\<rparr>) i =
          (Inr (), nb\<lparr>cells := take ?n ?cs @ [?c\<lparr>source := Str ?merged\<rparr>] @ drop (Suc ?n) ?cs\<rparr>)"
    unfolding mergeCells_ok [OF assms(1) len] c1 at0 at1 tk dr up
    by simp
  then have mg: "mergeCells (snd (splitCell nb i k)) i =
          (Inr (), nb\<lparr>cells := ?cs[?n := ?c\<lparr>source := Str ?merged\<rparr>]\<rparr>)"
    using sp n by (simp add: upd_conv_take_nth_drop)
  have ok: "fst (splitCell nb i k) = Inr ()"
    using sp by simp
  have later: "mergeCells (snd (splitCell nb i k)) i =
      (Inr (), nb\<lparr>cells := ?cs[?n := ?c\<lparr>source := Str (normalize (source ?c))\<rparr>]\<rparr>)"
    if "1 \<le> k"
  proof -
    from that assms have k: "0 < nat k" "nat k < length ?ls" by linarith+
    have "?merged = normalize (source ?c)"
      using join_take_drop [OF k, of "[LF]"] by (simp add: join_split_on)
    with mg show ?thesis by simp
  qed
  have zero: "source (cells (snd (splitCell nb i k)) ! ?n) = Str []
      \<and> mergeCells (snd (splitCell nb i k)) i =
      (Inr (), nb\<lparr>cells := ?cs[?n := ?c\<lparr>source := Str ([LF] @ normalize (source ?c))\<rparr>]\<rparr>)"
    if "k = 0"
  proof -
    from that have f: "?first = []" and s: "?second = normalize (source ?c)"
      by (simp_all add: join_split_on)
    from f have "source (?cs1 ! ?n) = Str []"
      unfolding at0 by simp
    then have "source (cells (snd (splitCell nb i k)) ! ?n) = Str []"
      unfolding sp by (simp only: snd_conv c1)
    moreover from f s have "?merged = [LF] @ normalize (source ?c)" by simp
    with mg have "mergeCells (snd (splitCell nb i k)) i =
      (Inr (), nb\<lparr>cells := ?cs[?n := ?c\<lparr>source := Str ([LF] @ normalize (source ?c))\<rparr>]\<rparr>)"
      by (simp only:)
    ultimately show ?thesis by (rule conjI)
  qed
  show ?thesis
    by (intro conjI impI) (fact ok, erule later, (drule zero, erule conjunct1), (drule zero, erule conjunct2))
qed

text \<open>
  Claim C1, witness: splitting the first example cell at line 1 and merging restores
  the notebook; splitting it at line 0 and merging puts a newline in front.
\<close>

theorem split_then_merge_witness:
  "(0::int) \<le> 0 \<and> (0::int) < int (length (cells ex_nb)) \<and> (1::int) \<le> 1
   \<and> (1::int) < int (length (split_on LF (normalize (source (cells ex_nb ! nat 0)))))
   \<and> fst (splitCell ex_nb 0 1) = Inr ()
   \<and> mergeCells (snd (splitCell ex_nb 0 1)) 0 = (Inr (), ex_nb)
   \<and> (0::int) < int (length (split_on LF (normalize (source (cells ex_nb ! nat 0)))))
   \<and> fst (splitCell ex_nb 0 0) = Inr ()
   \<and> source (cells (snd (splitCell ex_nb 0 0)) ! nat 0) = Str []
   \<and> mergeCells (snd (splitCell ex_nb 0 0)) 0 =
       (Inr (), ex_nb\<lparr>cells := [ex_code\<lparr>source := Str ''\<newline>a\<newline>b''\<rparr>, ex_md]\<rparr>)"
proof -
  have h: "(0::int) \<le> 0" "(0::int) < int (length (cells ex_nb))" "(0::int) \<le> 1"
    "(1::int) < int (length (split_on LF (normalize (source (cells ex_nb ! nat 0)))))"
    "(0::int) < int (length (split_on LF (normalize (source (cells ex_nb ! nat 0)))))"
    by (simp_all add: ex_defs)
  note a = split_then_merge [OF h(1,2,3,4)]
  note b = split_then_merge [OF h(1,2,1,5)]
  from a have a1: "fst (splitCell ex_nb 0 1) = Inr ()"
    and a2: "mergeCells (snd (splitCell ex_nb 0 1)) 0 = (Inr (), ex_nb)"
    by (simp_all add: ex_defs)
  from b have b1: "fst (splitCell ex_nb 0 0) = Inr ()"
    and b2: "source (cells (snd (splitCell ex_nb 0 0)) ! nat 0) = Str []"
    and b3: "mergeCells (snd (splitCell ex_nb 0 0)) 0 =
       (Inr (), ex_nb\<lparr>cells := [ex_code\<lparr>source := Str ''\<newline>a\<newline>b''\<rparr>, ex_md]\<rparr>)"
    by (simp_all add: ex_defs)
  show ?thesis
    by (intro conjI) (fact h(1), fact h(2), simp, fact h(4), fact a1, fact a2, fact h(5), fact b1, fact b2, fact b3)
qed

text \<open>
  Claim C1 as stated also covers line 0. On the first example cell the round trip at
  line 0 does not give back the source \<open>a\<newline>b\<close>.
\<close>

theorem split_at_line_0_then_merge_counterexample:
  "(0::int) \<le> 0 \<and> (0::int) < int (length (cells ex_nb))
   \<and> (0::int) < int (length (split_on LF (normalize (source (cells ex_nb ! nat 0)))))
   \<and> normalize (source (cells ex_nb ! 0)) = ''a\<newline>b''
   \<and> fst (splitCell ex_nb 0 0) = Inr ()
   \<and> fst (mergeCells (snd (splitCell ex_nb 0 0)) 0) = Inr ()
   \<and> source (cells (snd (mergeCells (snd (splitCell ex_nb 0 0)) 0)) ! 0) = Str ''\<newline>a\<newline>b''"
  by code_simp

text \<open>
  Claim C6. \<^verbatim>\<open>mergeCells\<close> succeeds exactly for \<open>0 \<le> index < len - 1\<close> and otherwise throws
  the "no next cell" error, leaving the notebook as it was. On success the cell at the
  index keeps its type, metadata, execution count and outputs, its source is its old
  normalized source, one newline, and the next cell's normalized source; the cells
  before are untouched, the cells after the next one follow directly, and there is one
  cell less.
\<close>

theorem mergeCells_spec:
  "(0 \<le> i \<and> i < int (length (cells nb)) - 1 \<longrightarrow>
      (\<exists>cs'. mergeCells nb i = (Inr (), nb\<lparr>cells := cs'\<rparr>)
         \<and> length cs' = length (cells nb) - 1
         \<and> cell_type (cs' ! nat i) = cell_type (cells nb ! nat i)
         \<and> metadata (cs' ! nat i) = metadata (cells nb ! nat i)
         \<and> execution_count (cs' ! nat i) = execution_count (cells nb ! nat i)
         \<and> outputs (cs' ! nat i) = outputs (cells nb ! nat i)
         \<and> source (cs' ! nat i) =
               Str (normalize (source (cells nb ! nat i)) @ [LF]
                    @ normalize (source (cells nb ! (nat i + 1))))
         \<and> take (nat i) cs' = take (nat i) (cells nb)
         \<and> drop (nat i + 1) cs' = drop (nat i + 2) (cells nb)))
   \<and> (\<not> (0 \<le> i \<and> i < int (length (cells nb)) - 1) \<longrightarrow>
        mergeCells nb i = (Inl CannotMerge, nb))"
proof (intro conjI impI)
  assume a: "0 \<le> i \<and> i < int (length (cells nb)) - 1"
  let ?n = "nat i"
  let ?c = "(cells nb ! ?n)\<lparr>source := Str (normalize (source (cells nb ! ?n)) @ [LF]
                                             @ normalize (source (cells nb ! Suc ?n)))\<rparr>"
  let ?cs' = "take ?n (cells nb) @ [?c] @ drop (Suc (Suc ?n)) (cells nb)"
  from a have n: "Suc ?n < length (cells nb)" by linarith
  from a have "mergeCells nb i = (Inr (), nb\<lparr>cells := ?cs'\<rparr>)"
    by (intro mergeCells_ok) simp_all
  moreover from n have "length ?cs' = length (cells nb) - 1" by simp
  moreover from n have "?cs' ! ?n = ?c" by (simp add: nth_append)
  moreover from n have "take ?n ?cs' = take ?n (cells nb)" by simp
  moreover from n have "drop (?n + 1) ?cs' = drop (?n + 2) (cells nb)" by simp
  ultimately show "\<exists>cs'. mergeCells nb i = (Inr (), nb\<lparr>cells := cs'\<rparr>)
         \<and> length cs' = length (cells nb) - 1
         \<and> cell_type (cs' ! nat i) = cell_type (cells nb ! nat i)
         \<and> metadata (cs' ! nat i) = metadata (cells nb ! nat i)
         \<and> execution_count (cs' ! nat i) = execution_count (cells nb ! nat i)
         \<and> outputs (cs' ! nat i) = outputs (cells nb ! nat i)
         \<and> source (cs' ! nat i) =
               Str (normalize (source (cells nb ! nat i)) @ [LF]
                    @ normalize (source (cells nb ! (nat i + 1))))
         \<and> take (nat i) cs' = take (nat i) (cells nb)
         \<and> drop (nat i + 1) cs' = drop (nat i + 2) (cells nb)"
    by (intro exI [of _ ?cs']) simp
next
  assume "\<not> (0 \<le> i \<and> i < int (length (cells nb)) - 1)"
  then show "mergeCells nb i = (Inl CannotMerge, nb)"
    by (auto simp: mergeCells_def)
qed

text \<open>Claim C6, witness: merging the two example cells, and merging at the last index.\<close>

theorem mergeCells_spec_witness:
  "(0::int) \<le> 0 \<and> (0::int) < int (length (cells ex_nb)) - 1
   \<and> mergeCells ex_nb 0 =
       (Inr (), ex_nb\<lparr>cells := [ex_code\<lparr>source := Str ''a\<newline>b\<newline># T\<newline>x''\<rparr>]\<rparr>)
   \<and> \<not> ((0::int) \<le> 1 \<and> (1::int) < int (length (cells ex_nb)) - 1)
   \<and> mergeCells ex_nb 1 = (Inl CannotMerge, ex_nb)"
proof -
  have h: "(0::int) \<le> 0 \<and> (0::int) < int (length (cells ex_nb)) - 1"
    by (simp add: ex_nb_def)
  have g: "\<not> ((0::int) \<le> 1 \<and> (1::int) < int (length (cells ex_nb)) - 1)"
    by (simp add: ex_nb_def)
  from mergeCells_spec [of 0 ex_nb] h
  obtain cs' where m: "mergeCells ex_nb 0 = (Inr (), ex_nb\<lparr>cells := cs'\<rparr>)"
    and l: "length cs' = length (cells ex_nb) - 1"
    and s: "source (cs' ! nat 0) =
               Str (normalize (source (cells ex_nb ! nat 0)) @ [LF]
                    @ normalize (source (cells ex_nb ! (nat 0 + 1))))"
    and t: "cell_type (cs' ! nat 0) = cell_type (cells ex_nb ! nat 0)"
           "metadata (cs' ! nat 0) = metadata (cells ex_nb ! nat 0)"
           "execution_count (cs' ! nat 0) = execution_count (cells ex_nb ! nat 0)"
           "outputs (cs' ! nat 0) = outputs (cells ex_nb ! nat 0)"
    by blast
  from l obtain c where cs': "cs' = [c]"
    by (cases cs') (simp_all add: ex_nb_def)
  with s t have "c = ex_code\<lparr>source := Str ''a\<newline>b\<newline># T\<newline>x''\<rparr>"
    by (simp add: ex_defs)
  with m cs' h g mergeCells_spec [of 1 ex_nb] show ?thesis
    by simp
qed

section \<open>Moving a cell\<close>

lemma length_insert_at: "length (take n r @ xs @ drop n r) = length r + length xs"
  by (cases "n \<le> length r") simp_all

lemma nth_insert_at: "n \<le> length r \<Longrightarrow> (take n r @ [x] @ drop n r) ! n = x"
  by (simp add: nth_append)

lemma moveCell_ok:
  assumes "0 \<le> f" "f < int (length (cells nb))" "0 \<le> t" "t < int (length (cells nb))"
  shows "moveCell nb f t =
    (Inr (), nb\<lparr>cells :=
       take (nat t) (take (nat f) (cells nb) @ drop (Suc (nat f)) (cells nb))
       @ [cells nb ! nat f]
       @ drop (nat t) (take (nat f) (cells nb) @ drop (Suc (nat f)) (cells nb))\<rparr>)"
proof -
  let ?rest = "take (nat f) (cells nb) @ drop (Suc (nat f)) (cells nb)"
  from assms have "nat f < length (cells nb)" by linarith
  then have "length ?rest = length (cells nb) - 1" by simp
  with assms have le: "0 \<le> t" "t \<le> int (length ?rest)" by linarith+
  show ?thesis using assms
    by (simp add: moveCell_def splice_delete [OF assms(1,2)] splice_insert [OF le])
qed

text \<open>
  Claim C8. For \<open>from\<close> and \<open>to\<close> both inside the cell sequence, \<^verbatim>\<open>moveCell\<close> succeeds,
  keeps the number of cells and the multiset of cells, and its result is the sequence
  without the cell at \<open>from\<close> with that cell put in at position \<open>to\<close>; a move of a cell
  to its own position returns the notebook unchanged.
\<close>

theorem moveCell_spec:
  assumes "0 \<le> f" "f < int (length (cells nb))" "0 \<le> t" "t < int (length (cells nb))"
  shows "\<exists>cs'. moveCell nb f t = (Inr (), nb\<lparr>cells := cs'\<rparr>)
           \<and> length cs' = length (cells nb)
           \<and> mset cs' = mset (cells nb)
           \<and> cs' = (let shortened = take (nat f) (cells nb) @ drop (Suc (nat f)) (cells nb)
                    in take (nat t) shortened @ [cells nb ! nat f] @ drop (nat t) shortened)
           \<and> cs' ! nat t = cells nb ! nat f
           \<and> (f = t \<longrightarrow> moveCell nb f t = (Inr (), nb))"
proof -
  let ?cs = "cells nb"
  let ?rest = "take (nat f) ?cs @ drop (Suc (nat f)) ?cs"
  let ?cs' = "take (nat t) ?rest @ [?cs ! nat f] @ drop (nat t) ?rest"
  from assms have f: "nat f < length ?cs" and t: "nat t < length ?cs" by linarith+
  then have lr: "length ?rest = length ?cs - 1" by simp
  have mv: "moveCell nb f t = (Inr (), nb\<lparr>cells := ?cs'\<rparr>)"
    using assms by (rule moveCell_ok)
  have len: "length ?cs' = length ?cs"
    using f lr by (simp only: length_insert_at) simp
  have "mset ?cs' = mset (take (nat t) ?rest @ drop (nat t) ?rest) + {#?cs ! nat f#}"
    by (simp only: mset_append mset.simps) simp
  also have "\<dots> = mset ?rest + {#?cs ! nat f#}"
    by (simp only: append_take_drop_id)
  also have "\<dots> = mset (take (nat f) ?cs @ [?cs ! nat f] @ drop (Suc (nat f)) ?cs)"
    by simp
  also have "\<dots> = mset ?cs"
    using f by (simp only: id_take_nth_drop [symmetric] append_Cons append_Nil)
  finally have ms: "mset ?cs' = mset ?cs" .
  have at: "?cs' ! nat t = ?cs ! nat f"
  proof -
    have "nat t \<le> length ?rest" unfolding lr using t by linarith
    then show ?thesis by (rule nth_insert_at)
  qed
  have same: "moveCell nb f t = (Inr (), nb)" if "f = t"
  proof -
    from that f have "?cs' = take (nat f) ?cs @ [?cs ! nat f] @ drop (Suc (nat f)) ?cs"
      by simp
    also from f have "\<dots> = ?cs"
      by (simp only: id_take_nth_drop [symmetric] append_Cons append_Nil)
    finally show ?thesis using mv by simp
  qed
  have form: "?cs' = (let shortened = ?rest
                       in take (nat t) shortened @ [?cs ! nat f] @ drop (nat t) shortened)"
    by (simp only: Let_def)
  show ?thesis
    by (intro exI [of _ ?cs'] conjI impI) (fact mv, fact len, fact ms, fact form, fact at, erule same)
qed

text \<open>Claim C8, witness: moving the first example cell behind the second, and the second onto itself.\<close>

theorem moveCell_spec_witness:
  "(0::int) \<le> 0 \<and> (0::int) < int (length (cells ex_nb))
   \<and> (0::int) \<le> 1 \<and> (1::int) < int (length (cells ex_nb))
   \<and> moveCell ex_nb 0 1 = (Inr (), ex_nb\<lparr>cells := [ex_md, ex_code]\<rparr>)
   \<and> moveCell ex_nb 1 1 = (Inr (), ex_nb)"
proof -
  have h: "(0::int) \<le> 0" "(0::int) < int (length (cells ex_nb))"
     "(0::int) \<le> 1" "(1::int) < int (length (cells ex_nb))"
    by (simp_all add: ex_nb_def)
  from moveCell_spec [OF h(1,2,3,4)] have "moveCell ex_nb 0 1 = (Inr (), ex_nb\<lparr>cells := [ex_md, ex_code]\<rparr>)"
    by (auto simp: Let_def ex_nb_def)
  moreover from moveCell_spec [OF h(3,4,3,4)] have "moveCell ex_nb 1 1 = (Inr (), ex_nb)"
    by auto
  ultimately show ?thesis using h by simp
qed

section \<open>Inserting a cell\<close>

lemma insert_at_unique:
  assumes "length cs' = Suc (length cs)" "cs' ! p = c"
    "take p cs' @ drop (Suc p) cs' = cs" "p \<le> length cs"
  shows "cs' = take p cs @ [c] @ drop p cs"
proof -
  from assms have pl: "p < length cs'" by simp
  then have "length (take p cs') = p" by simp
  with assms(3) have "take p cs = take p cs'" "drop p cs = drop (Suc p) cs'"
    by (metis append_eq_conv_conj)+
  with id_take_nth_drop [OF pl] assms(2) show ?thesis by simp
qed

lemma splice_insert_any:
  "splice xs p 0 items =
     ([], take (nat (if p < 0 then max (int (length xs) + p) 0 else min p (int (length xs)))) xs
          @ items
          @ drop (nat (if p < 0 then max (int (length xs) + p) 0 else min p (int (length xs)))) xs)"
  by (simp add: splice_def Let_def)

text \<open>
  Claim C2, as amended. \<^verbatim>\<open>addCell\<close> never fails. The new cell lands at a position \<open>p\<close>
  of the new sequence, the other cells are the old ones in their order, and \<open>p\<close> is
  \<open>index + 1\<close> for \<open>-1 \<le> index < len\<close>, the old length for \<open>index \<ge> len\<close>, and
  \<open>max (len + index + 1) 0\<close> for \<open>index < -1\<close>.
\<close>

theorem addCell_spec:
  "\<exists>p cs'. addCell nb cellType src index = (Inr (), nb\<lparr>cells := cs'\<rparr>)
      \<and> p \<le> length (cells nb)
      \<and> length cs' = Suc (length (cells nb))
      \<and> cs' ! p = make_cell cellType src
      \<and> take p cs' @ drop (Suc p) cs' = cells nb
      \<and> (- 1 \<le> index \<and> index < int (length (cells nb)) \<longrightarrow> int p = index + 1)
      \<and> (int (length (cells nb)) \<le> index \<longrightarrow> p = length (cells nb))
      \<and> (index < - 1 \<longrightarrow> int p = max (int (length (cells nb)) + index + 1) 0)"
proof -
  let ?cs = "cells nb"
  let ?p = "nat (if index + 1 < 0 then max (int (length ?cs) + (index + 1)) 0
                 else min (index + 1) (int (length ?cs)))"
  let ?cs' = "take ?p ?cs @ [make_cell cellType src] @ drop ?p ?cs"
  have p: "?p \<le> length ?cs" by (auto simp: max_def min_def)
  have a: "addCell nb cellType src index = (Inr (), nb\<lparr>cells := ?cs'\<rparr>)"
    by (simp only: addCell_def Let_def splice_insert_any snd_conv)
  have l: "length ?cs' = Suc (length ?cs)"
    by (simp only: length_insert_at) simp
  have n: "?cs' ! ?p = make_cell cellType src"
    using p by (rule nth_insert_at)
  have t: "take ?p ?cs' = take ?p ?cs"
    using p by simp
  have d: "drop (Suc ?p) ?cs' = drop ?p ?cs"
    using p by simp
  have r: "take ?p ?cs' @ drop (Suc ?p) ?cs' = ?cs"
    by (simp only: t d append_take_drop_id)
  have c1: "- 1 \<le> index \<and> index < int (length ?cs) \<longrightarrow> int ?p = index + 1"
    by auto
  have c2: "int (length ?cs) \<le> index \<longrightarrow> ?p = length ?cs"
    by auto
  have c3: "index < - 1 \<longrightarrow> int ?p = max (int (length ?cs) + index + 1) 0"
    by auto
  show ?thesis
    by (intro exI [of _ ?p] exI [of _ ?cs'] conjI) (fact a, fact p, fact l, fact n, fact r, fact c1, fact c2, fact c3)
qed

text \<open>
  Claim C2, witness: on the two example cells, index 0 puts the new cell at position 1,
  index 5 at position 2 (the end), and index -7 at position 0.
\<close>

theorem addCell_spec_witness:
  "(- 1 \<le> (0::int) \<and> (0::int) < int (length (cells ex_nb)))
   \<and> addCell ex_nb ''raw'' ''z'' 0 = (Inr (), ex_nb\<lparr>cells := [ex_code, make_cell ''raw'' ''z'', ex_md]\<rparr>)
   \<and> int (length (cells ex_nb)) \<le> 5
   \<and> addCell ex_nb ''raw'' ''z'' 5 = (Inr (), ex_nb\<lparr>cells := [ex_code, ex_md, make_cell ''raw'' ''z'']\<rparr>)
   \<and> (- 7::int) < - 1
   \<and> addCell ex_nb ''raw'' ''z'' (- 7) = (Inr (), ex_nb\<lparr>cells := [make_cell ''raw'' ''z'', ex_code, ex_md]\<rparr>)"
proof -
  have h1: "- 1 \<le> (0::int) \<and> (0::int) < int (length (cells ex_nb))"
    and h2: "int (length (cells ex_nb)) \<le> 5" and h3: "(- 7::int) < - 1"
    by (simp_all add: ex_nb_def)
  have e: "cells ex_nb = [ex_code, ex_md]" by (simp add: ex_nb_def)
  have r1: "addCell ex_nb ''raw'' ''z'' 0 = (Inr (), ex_nb\<lparr>cells := [ex_code, make_cell ''raw'' ''z'', ex_md]\<rparr>)"
  proof -
    from addCell_spec [of ex_nb "''raw''" "''z''" 0] h1
    obtain p cs' where a: "addCell ex_nb ''raw'' ''z'' 0 = (Inr (), ex_nb\<lparr>cells := cs'\<rparr>)"
      and f: "length cs' = Suc (length (cells ex_nb))" "cs' ! p = make_cell ''raw'' ''z''"
        "take p cs' @ drop (Suc p) cs' = cells ex_nb" "p \<le> length (cells ex_nb)"
      and p: "int p = 0 + 1"
      by blast
    from p have "p = 1" by simp
    with insert_at_unique [OF f] a show ?thesis by (simp add: e)
  qed
  have r2: "addCell ex_nb ''raw'' ''z'' 5 = (Inr (), ex_nb\<lparr>cells := [ex_code, ex_md, make_cell ''raw'' ''z'']\<rparr>)"
  proof -
    from addCell_spec [of ex_nb "''raw''" "''z''" 5] h2
    obtain p cs' where a: "addCell ex_nb ''raw'' ''z'' 5 = (Inr (), ex_nb\<lparr>cells := cs'\<rparr>)"
      and f: "length cs' = Suc (length (cells ex_nb))" "cs' ! p = make_cell ''raw'' ''z''"
        "take p cs' @ drop (Suc p) cs' = cells ex_nb" "p \<le> length (cells ex_nb)"
      and p: "p = length (cells ex_nb)"
      by blast
    from p have "p = 2" by (simp add: e)
    with insert_at_unique [OF f] a show ?thesis by (simp add: e)
  qed
  have r3: "addCell ex_nb ''raw'' ''z'' (- 7) = (Inr (), ex_nb\<lparr>cells := [make_cell ''raw'' ''z'', ex_code, ex_md]\<rparr>)"
  proof -
    from addCell_spec [of ex_nb "''raw''" "''z''" "- 7"] h3
    obtain p cs' where a: "addCell ex_nb ''raw'' ''z'' (- 7) = (Inr (), ex_nb\<lparr>cells := cs'\<rparr>)"
      and f: "length cs' = Suc (length (cells ex_nb))" "cs' ! p = make_cell ''raw'' ''z''"
        "take p cs' @ drop (Suc p) cs' = cells ex_nb" "p \<le> length (cells ex_nb)"
      and p: "int p = max (int (length (cells ex_nb)) + - 7 + 1) 0"
      by blast
    from p have "p = 0" by (simp add: e)
    with insert_at_unique [OF f] a show ?thesis by (simp add: e)
  qed
  from h1 r1 h2 r2 h3 r3 show ?thesis by blast
qed

text \<open>
  Claim C2 as stated covers every integer index. With index 5 on the two example cells
  there is no position 6 afterwards: the new cell is the last of three.
\<close>

theorem addCell_beyond_end_counterexample:
  "length (cells (snd (addCell ex_nb ''raw'' ''z'' 5))) = 3
   \<and> \<not> nat (5 + 1) < length (cells (snd (addCell ex_nb ''raw'' ''z'' 5)))
   \<and> cells (snd (addCell ex_nb ''raw'' ''z'' 5)) ! 2 = make_cell ''raw'' ''z''"
  by code_simp

section \<open>Failed calls\<close>

lemma editCell_fail: "\<not> in_bounds nb i \<Longrightarrow> editCell nb i s = (Inl (CellIndexOutOfBounds i), nb)"
  by (auto simp: editCell_def in_bounds_def)

lemma deleteCell_fail: "\<not> in_bounds nb i \<Longrightarrow> deleteCell nb i = (Inl (CellIndexOutOfBounds i), nb)"
  by (auto simp: deleteCell_def in_bounds_def)

lemma changeCellType_fail:
  "\<not> in_bounds nb i \<Longrightarrow> changeCellType nb i t = (Inl (CellIndexOutOfBounds i), nb)"
  by (auto simp: changeCellType_def in_bounds_def)

lemma duplicateCell_fail:
  "\<not> in_bounds nb i \<Longrightarrow> duplicateCell nb i n = (Inl (CellIndexOutOfBounds i), nb)"
  by (auto simp: duplicateCell_def in_bounds_def)

lemma editCellMetadata_fail:
  "\<not> in_bounds nb i \<Longrightarrow> editCellMetadata nb i md = (Inl (CellIndexOutOfBounds i), nb)"
  by (auto simp: editCellMetadata_def in_bounds_def)

lemma clearCellOutputs_fail:
  "\<not> in_bounds nb i \<Longrightarrow> clearCellOutputs nb i = (Inl (CellIndexOutOfBounds i), nb)"
  by (auto simp: clearCellOutputs_def in_bounds_def)

lemma moveCell_fail:
  "\<not> (in_bounds nb f \<and> in_bounds nb t) \<Longrightarrow> moveCell nb f t = (Inl MoveIndexOutOfBounds, nb)"
  by (auto simp: moveCell_def in_bounds_def)

lemma splitCell_fail:
  "\<not> (in_bounds nb i \<and> 0 \<le> k \<and> k < int (length (split_on LF (normalize (source (cells nb ! nat i))))))
   \<Longrightarrow> splitCell nb i k =
       (Inl (if in_bounds nb i then LineNumberOutOfBounds k else CellIndexOutOfBounds i), nb)"
  by (auto simp: splitCell_def in_bounds_def Let_def)

lemma mergeCells_fail:
  "\<not> (0 \<le> i \<and> i < int (length (cells nb)) - 1) \<Longrightarrow> mergeCells nb i = (Inl CannotMerge, nb)"
  by (auto simp: mergeCells_def)

lemma editCellOutput_fail:
  "\<not> (in_bounds nb i \<and> cell_type (cells nb ! nat i) = ''code'')
   \<Longrightarrow> editCellOutput nb i outs =
       (Inl (if in_bounds nb i then NotACodeCell i else CellIndexOutOfBounds i), nb)"
  by (auto simp: editCellOutput_def in_bounds_def Let_def)

lemma call_tool_fail:
  "\<not> spec_precondition nb req \<Longrightarrow> \<exists>e. call_tool nb req = (Inl e, nb)"
  by (cases req)
    (simp_all add: editCell_fail deleteCell_fail changeCellType_fail duplicateCell_fail
      editCellMetadata_fail clearCellOutputs_fail moveCell_fail splitCell_fail mergeCells_fail
      editCellOutput_fail del: split_paired_Ex)

lemma editCell_succeeds: "in_bounds nb i \<Longrightarrow> fst (editCell nb i s) = Inr ()"
  by (auto simp: editCell_def in_bounds_def Let_def)

lemma deleteCell_succeeds: "in_bounds nb i \<Longrightarrow> fst (deleteCell nb i) = Inr ()"
  by (auto simp: deleteCell_def in_bounds_def)

lemma changeCellType_succeeds: "in_bounds nb i \<Longrightarrow> fst (changeCellType nb i t) = Inr ()"
  by (auto simp: changeCellType_def in_bounds_def Let_def)

lemma duplicateCell_succeeds: "in_bounds nb i \<Longrightarrow> fst (duplicateCell nb i n) = Inr ()"
  by (auto simp: duplicateCell_def in_bounds_def Let_def)

lemma editCellMetadata_succeeds: "in_bounds nb i \<Longrightarrow> fst (editCellMetadata nb i md) = Inr ()"
  by (auto simp: editCellMetadata_def in_bounds_def Let_def)

lemma clearCellOutputs_succeeds: "in_bounds nb i \<Longrightarrow> fst (clearCellOutputs nb i) = Inr ()"
  by (auto simp: clearCellOutputs_def in_bounds_def Let_def)

lemma moveCell_succeeds: "in_bounds nb f \<Longrightarrow> in_bounds nb t \<Longrightarrow> fst (moveCell nb f t) = Inr ()"
  by (simp add: moveCell_ok in_bounds_def)

lemma splitCell_succeeds:
  "in_bounds nb i \<Longrightarrow> 0 \<le> k \<Longrightarrow> k < int (length (split_on LF (normalize (source (cells nb ! nat i)))))
   \<Longrightarrow> fst (splitCell nb i k) = Inr ()"
  by (simp add: splitCell_ok in_bounds_def)

lemma mergeCells_succeeds:
  "0 \<le> i \<Longrightarrow> i < int (length (cells nb)) - 1 \<Longrightarrow> fst (mergeCells nb i) = Inr ()"
  by (simp add: mergeCells_ok)

lemma editCellOutput_succeeds:
  "in_bounds nb i \<Longrightarrow> cell_type (cells nb ! nat i) = ''code'' \<Longrightarrow> fst (editCellOutput nb i outs) = Inr ()"
  by (auto simp: editCellOutput_def in_bounds_def Let_def)

lemma call_tool_succeeds: "spec_precondition nb req \<Longrightarrow> fst (call_tool nb req) = Inr ()"
  by (cases req)
    (simp_all add: editCell_succeeds deleteCell_succeeds changeCellType_succeeds
      duplicateCell_succeeds editCellMetadata_succeeds clearCellOutputs_succeeds moveCell_succeeds
      splitCell_succeeds mergeCells_succeeds editCellOutput_succeeds
      addCell_def editMetadata_def clearAllOutputs_def bulkAddCells_def Let_def)

text \<open>
  Claim C3. A call of a mutation tool throws exactly when the precondition of the
  specification fails, and a call that throws has changed nothing: the notebook in
  memory at the throw is the notebook that was read. The errors are the index error,
  for a split inside the cells the line number error, for a merge the "no next cell"
  error, and for an edit of outputs inside the cells the "not a code cell" error.
\<close>

theorem failed_call_leaves_notebook:
  "(\<not> spec_precondition nb req \<longrightarrow> (\<exists>e. call_tool nb req = (Inl e, nb)))
   \<and> (spec_precondition nb req \<longrightarrow> fst (call_tool nb req) = Inr ())
   \<and> (\<not> in_bounds nb i \<longrightarrow>
        splitCell nb i k = (Inl (CellIndexOutOfBounds i), nb)
        \<and> editCellOutput nb i outs = (Inl (CellIndexOutOfBounds i), nb))
   \<and> (in_bounds nb i \<and> \<not> (0 \<le> k \<and> k < int (length (split_on LF (normalize (source (cells nb ! nat i))))))
        \<longrightarrow> splitCell nb i k = (Inl (LineNumberOutOfBounds k), nb))
   \<and> (in_bounds nb i \<and> cell_type (cells nb ! nat i) \<noteq> ''code''
        \<longrightarrow> editCellOutput nb i outs = (Inl (NotACodeCell i), nb))
   \<and> (\<not> (in_bounds nb f \<and> in_bounds nb t) \<longrightarrow> moveCell nb f t = (Inl MoveIndexOutOfBounds, nb))
   \<and> (\<not> (0 \<le> i \<and> i < int (length (cells nb)) - 1) \<longrightarrow> mergeCells nb i = (Inl CannotMerge, nb))"
proof (intro conjI impI)
  assume "\<not> spec_precondition nb req"
  then show "\<exists>e. call_tool nb req = (Inl e, nb)" by (rule call_tool_fail)
next
  assume "spec_precondition nb req"
  then show "fst (call_tool nb req) = Inr ()" by (rule call_tool_succeeds)
next
  assume "\<not> in_bounds nb i"
  then show "splitCell nb i k = (Inl (CellIndexOutOfBounds i), nb)"
    by (simp add: splitCell_fail)
next
  assume "\<not> in_bounds nb i"
  then show "editCellOutput nb i outs = (Inl (CellIndexOutOfBounds i), nb)"
    by (simp add: editCellOutput_fail)
next
  assume "in_bounds nb i \<and> \<not> (0 \<le> k \<and> k < int (length (split_on LF (normalize (source (cells nb ! nat i))))))"
  then show "splitCell nb i k = (Inl (LineNumberOutOfBounds k), nb)"
    by (simp add: splitCell_fail)
next
  assume "in_bounds nb i \<and> cell_type (cells nb ! nat i) \<noteq> ''code''"
  then show "editCellOutput nb i outs = (Inl (NotACodeCell i), nb)"
    by (simp add: editCellOutput_fail)
next
  assume "\<not> (in_bounds nb f \<and> in_bounds nb t)"
  then show "moveCell nb f t = (Inl MoveIndexOutOfBounds, nb)" by (rule moveCell_fail)
next
  assume "\<not> (0 \<le> i \<and> i < int (length (cells nb)) - 1)"
  then show "mergeCells nb i = (Inl CannotMerge, nb)" by (rule mergeCells_fail)
qed

text \<open>
  Claim C3, witness: on the example notebook a split at line 7 of cell 0, a split at
  line 9 and an edit of the outputs of the markdown cell 1, a move to index 2, a merge
  at the last index, and a split and an edit of outputs at index 5 all throw and leave
  the notebook; an edit of cell 0 succeeds.
\<close>

theorem failed_call_leaves_notebook_witness:
  "\<not> spec_precondition ex_nb (Notebook_split_cell 0 7)
   \<and> (\<exists>e. call_tool ex_nb (Notebook_split_cell 0 7) = (Inl e, ex_nb))
   \<and> spec_precondition ex_nb (Notebook_edit_cell 0 ''q'')
   \<and> fst (call_tool ex_nb (Notebook_edit_cell 0 ''q'')) = Inr ()
   \<and> \<not> in_bounds ex_nb 5
   \<and> splitCell ex_nb 5 0 = (Inl (CellIndexOutOfBounds 5), ex_nb)
   \<and> editCellOutput ex_nb 5 (JArr []) = (Inl (CellIndexOutOfBounds 5), ex_nb)
   \<and> in_bounds ex_nb 1
   \<and> \<not> (0 \<le> (9::int) \<and> 9 < int (length (split_on LF (normalize (source (cells ex_nb ! nat 1))))))
   \<and> splitCell ex_nb 1 9 = (Inl (LineNumberOutOfBounds 9), ex_nb)
   \<and> cell_type (cells ex_nb ! nat 1) \<noteq> ''code''
   \<and> editCellOutput ex_nb 1 (JArr []) = (Inl (NotACodeCell 1), ex_nb)
   \<and> \<not> (in_bounds ex_nb 0 \<and> in_bounds ex_nb 2)
   \<and> moveCell ex_nb 0 2 = (Inl MoveIndexOutOfBounds, ex_nb)
   \<and> \<not> (0 \<le> (1::int) \<and> 1 < int (length (cells ex_nb)) - 1)
   \<and> mergeCells ex_nb 1 = (Inl CannotMerge, ex_nb)"
proof -
  have h1: "\<not> spec_precondition ex_nb (Notebook_split_cell 0 7)"
    by code_simp
  have h2: "spec_precondition ex_nb (Notebook_edit_cell 0 ''q'')"
    by code_simp
  have h3: "\<not> in_bounds ex_nb 5" and h4: "in_bounds ex_nb 1"
    and h7: "\<not> (in_bounds ex_nb 0 \<and> in_bounds ex_nb 2)"
    and h8: "\<not> (0 \<le> (1::int) \<and> 1 < int (length (cells ex_nb)) - 1)"
    by (simp_all add: in_bounds_def ex_nb_def)
  have h5: "\<not> (0 \<le> (9::int) \<and> 9 < int (length (split_on LF (normalize (source (cells ex_nb ! nat 1))))))"
    by (simp add: ex_defs)
  have h6: "cell_type (cells ex_nb ! nat 1) \<noteq> ''code''"
    by (simp add: ex_defs)
  note a = failed_call_leaves_notebook [where nb = ex_nb and req = "Notebook_split_cell 0 7"
      and i = 1 and k = 9 and f = 0 and t = 2 and outs = "JArr []"]
  note b = failed_call_leaves_notebook [where nb = ex_nb and req = "Notebook_edit_cell 0 ''q''"
      and i = 5 and k = 0 and f = 0 and t = 2 and outs = "JArr []"]
  from a h1 have c1: "\<exists>e. call_tool ex_nb (Notebook_split_cell 0 7) = (Inl e, ex_nb)" by blast
  from b h2 have c2: "fst (call_tool ex_nb (Notebook_edit_cell 0 ''q'')) = Inr ()" by blast
  from b h3 have c3: "splitCell ex_nb 5 0 = (Inl (CellIndexOutOfBounds 5), ex_nb)"
    and c4: "editCellOutput ex_nb 5 (JArr []) = (Inl (CellIndexOutOfBounds 5), ex_nb)" by blast+
  from a h4 h5 have c5: "splitCell ex_nb 1 9 = (Inl (LineNumberOutOfBounds 9), ex_nb)" by blast
  from a h4 h6 have c6: "editCellOutput ex_nb 1 (JArr []) = (Inl (NotACodeCell 1), ex_nb)" by blast
  from a h7 have c7: "moveCell ex_nb 0 2 = (Inl MoveIndexOutOfBounds, ex_nb)" by blast
  from a h8 have c8: "mergeCells ex_nb 1 = (Inl CannotMerge, ex_nb)" by blast
  show ?thesis
    by (intro conjI) (fact h1, fact c1, fact h2, fact c2, fact h3, fact c3, fact c4, fact h4, fact h5,
      fact c5, fact h6, fact c6, fact h7, fact c7, fact h8, fact c8)
qed

section \<open>The invariant of the execution fields\<close>

lemma list_all_splice:
  "list_all P xs \<Longrightarrow> list_all P items \<Longrightarrow> list_all P (snd (splice xs p d items))"
  by (auto simp: splice_def Let_def list_all_iff dest: in_set_takeD in_set_dropD)

lemma list_all_update: "list_all P xs \<Longrightarrow> P y \<Longrightarrow> list_all P (xs[n := y])"
  by (auto simp: list_all_iff dest!: set_update_subset_insert [THEN subsetD])

lemma cell_ok_make_cell: "cell_ok (make_cell t s)"
  by (simp add: cell_ok_def make_cell_def Let_def)

lemma cell_ok_source: "cell_ok c \<Longrightarrow> cell_ok (c\<lparr>source := s\<rparr>)"
  by (simp add: cell_ok_def)

lemma cell_ok_metadata: "cell_ok c \<Longrightarrow> cell_ok (c\<lparr>metadata := m\<rparr>)"
  by (simp add: cell_ok_def)

lemma cell_ok_clear_cell: "cell_ok c \<Longrightarrow> cell_ok (clear_cell c)"
  by (simp add: cell_ok_def clear_cell_def)

lemma cell_ok_duplicate_of: "cell_ok c \<Longrightarrow> cell_ok (duplicate_of c)"
  by (simp add: cell_ok_def duplicate_of_def)

lemma cell_ok_outputs:
  "cell_ok c \<Longrightarrow> cell_type c = ''code'' \<Longrightarrow> cell_ok (c\<lparr>outputs := Some outs\<rparr>)"
  by (simp add: cell_ok_def)

lemma cell_ok_retype:
  "cell_ok (if t = ''code''
            then c\<lparr>cell_type := t, execution_count := Some JNull, outputs := Some (JArr [])\<rparr>
            else c\<lparr>cell_type := t, execution_count := None, outputs := None\<rparr>)"
  by (simp add: cell_ok_def)

lemma list_all_nth: "list_all P xs \<Longrightarrow> n < length xs \<Longrightarrow> P (xs ! n)"
  by (simp add: list_all_length)

lemma guard_iff: "(int (length (cells nb)) \<le> i \<or> i < 0) = (\<not> in_bounds nb i)"
  by (auto simp: in_bounds_def)

lemma in_bounds_nat: "in_bounds nb i \<Longrightarrow> nat i < length (cells nb)"
  unfolding in_bounds_def by linarith

lemma nth_ok: "nb_ok nb \<Longrightarrow> in_bounds nb i \<Longrightarrow> cell_ok (cells nb ! nat i)"
  unfolding nb_ok_def by (erule list_all_nth) (rule in_bounds_nat)

lemma duplicate_loop_step:
  "i < cnt \<Longrightarrow> duplicate_loop orig ci cnt i cs =
     duplicate_loop orig ci cnt (i + 1) (snd (splice cs (ci + 1 + i) 0 [duplicate_of orig]))"
  by (subst duplicate_loop.simps) (simp add: json_copy_def duplicate_of_def Let_def)

lemma duplicate_loop_stop: "\<not> i < cnt \<Longrightarrow> duplicate_loop orig ci cnt i cs = cs"
  by (subst duplicate_loop.simps) simp

lemma duplicate_loop_ok:
  "list_all cell_ok cs \<Longrightarrow> cell_ok orig \<Longrightarrow> list_all cell_ok (duplicate_loop orig ci cnt i cs)"
proof (induction orig ci cnt i cs rule: duplicate_loop.induct)
  case (1 originalCell cellIndex cnt i cs)
  show ?case
  proof (cases "i < cnt")
    case True
    have eq: "(if cell_type (json_copy originalCell) = ''code''
               then (json_copy originalCell)\<lparr>execution_count := Some JNull, outputs := Some (JArr [])\<rparr>
               else json_copy originalCell) = duplicate_of originalCell"
      by (simp add: json_copy_def duplicate_of_def)
    from "1.prems" have "list_all cell_ok (snd (splice cs (cellIndex + 1 + i) 0 [duplicate_of originalCell]))"
      by (intro list_all_splice) (simp_all add: cell_ok_duplicate_of)
    with "1.prems" "1.IH" [OF True refl refl, unfolded eq] show ?thesis
      by (simp add: duplicate_loop_step [OF True])
  next
    case False
    with "1.prems" show ?thesis
      by (simp add: duplicate_loop_stop)
  qed
qed

lemma nb_ok_addCell: "nb_ok nb \<Longrightarrow> nb_ok (snd (addCell nb t s i))"
  by (simp add: nb_ok_def addCell_def Let_def list_all_splice cell_ok_make_cell)

lemma list_all_make_cells: "list_all cell_ok (map (\<lambda>(ct, src). make_cell ct src) cd)"
  by (induction cd) (auto simp: cell_ok_make_cell)

lemma nb_ok_bulkAddCells: "nb_ok nb \<Longrightarrow> nb_ok (snd (bulkAddCells nb cd i))"
  by (simp add: nb_ok_def bulkAddCells_def Let_def list_all_splice list_all_make_cells)

lemma nb_ok_editCell:
  assumes "nb_ok nb"
  shows "nb_ok (snd (editCell nb i s))"
proof (cases "in_bounds nb i")
  case True
  with assms have "cell_ok ((cells nb ! nat i)\<lparr>source := Str s\<rparr>)"
    by (simp add: nth_ok cell_ok_source)
  with assms True show ?thesis
    by (simp add: editCell_def guard_iff Let_def nb_ok_def list_all_update)
next
  case False
  with assms show ?thesis by (simp add: editCell_fail)
qed

lemma nb_ok_deleteCell: "nb_ok nb \<Longrightarrow> nb_ok (snd (deleteCell nb i))"
  by (simp add: nb_ok_def deleteCell_def list_all_splice)

lemma nb_ok_changeCellType:
  assumes "nb_ok nb"
  shows "nb_ok (snd (changeCellType nb i t))"
proof (cases "in_bounds nb i")
  case True
  with assms cell_ok_retype [of t "cells nb ! nat i"] show ?thesis
    by (simp add: changeCellType_def guard_iff Let_def nb_ok_def list_all_update)
next
  case False
  with assms show ?thesis by (simp add: changeCellType_fail)
qed

lemma nb_ok_duplicateCell:
  assumes "nb_ok nb"
  shows "nb_ok (snd (duplicateCell nb i n))"
proof (cases "in_bounds nb i")
  case True
  with assms have "list_all cell_ok (duplicate_loop (cells nb ! nat i) i n 0 (cells nb))"
    by (intro duplicate_loop_ok) (simp_all add: nth_ok nb_ok_def)
  with True show ?thesis
    by (simp add: duplicateCell_def guard_iff Let_def nb_ok_def json_copy_def)
next
  case False
  with assms show ?thesis by (simp add: duplicateCell_fail)
qed

lemma nb_ok_editMetadata: "nb_ok nb \<Longrightarrow> nb_ok (snd (editMetadata nb md))"
  by (simp add: nb_ok_def editMetadata_def)

lemma nb_ok_editCellMetadata:
  assumes "nb_ok nb"
  shows "nb_ok (snd (editCellMetadata nb i md))"
proof (cases "in_bounds nb i")
  case True
  with assms have "cell_ok ((cells nb ! nat i)\<lparr>metadata := m\<rparr>)" for m
    by (simp add: nth_ok cell_ok_metadata)
  with assms True show ?thesis
    by (simp add: editCellMetadata_def guard_iff Let_def nb_ok_def list_all_update)
next
  case False
  with assms show ?thesis by (simp add: editCellMetadata_fail)
qed

lemma nb_ok_clearCellOutputs:
  assumes "nb_ok nb"
  shows "nb_ok (snd (clearCellOutputs nb i))"
proof (cases "in_bounds nb i")
  case True
  with assms have "cell_ok (clear_cell (cells nb ! nat i))"
    by (simp add: nth_ok cell_ok_clear_cell)
  with assms True show ?thesis
    by (simp add: clearCellOutputs_def guard_iff Let_def nb_ok_def list_all_update)
next
  case False
  with assms show ?thesis by (simp add: clearCellOutputs_fail)
qed

lemma nb_ok_clearAllOutputs: "nb_ok nb \<Longrightarrow> nb_ok (snd (clearAllOutputs nb))"
  by (simp add: nb_ok_def clearAllOutputs_def list_all_iff cell_ok_clear_cell)

lemma nb_ok_moveCell:
  assumes "nb_ok nb"
  shows "nb_ok (snd (moveCell nb f t))"
proof (cases "in_bounds nb f \<and> in_bounds nb t")
  case True
  then have "cells nb ! nat f \<in> set (cells nb)"
    by (simp add: in_bounds_nat)
  with True assms show ?thesis
    by (auto simp: moveCell_ok in_bounds_def nb_ok_def list_all_iff
        dest: in_set_takeD in_set_dropD)
next
  case False
  with assms show ?thesis by (simp add: moveCell_fail)
qed

lemma nb_ok_splitCell:
  assumes "nb_ok nb"
  shows "nb_ok (snd (splitCell nb i k))"
proof (cases "in_bounds nb i")
  case True
  with assms have "cell_ok ((cells nb ! nat i)\<lparr>source := s\<rparr>)" for s
    by (simp add: nth_ok cell_ok_source)
  with assms True show ?thesis
    by (simp add: splitCell_def guard_iff Let_def nb_ok_def list_all_update list_all_splice
        cell_ok_make_cell)
next
  case False
  with assms show ?thesis by (simp add: splitCell_fail)
qed

lemma nb_ok_mergeCells:
  assumes "nb_ok nb"
  shows "nb_ok (snd (mergeCells nb i))"
proof (cases "0 \<le> i \<and> i < int (length (cells nb)) - 1")
  case True
  then have "in_bounds nb i" by (simp add: in_bounds_def)
  with assms have "cell_ok ((cells nb ! nat i)\<lparr>source := s\<rparr>)" for s
    by (simp add: nth_ok cell_ok_source)
  with assms True show ?thesis
    by (simp add: mergeCells_def Let_def nb_ok_def list_all_update list_all_splice)
next
  case False
  with assms show ?thesis by (simp add: mergeCells_fail)
qed

lemma nb_ok_editCellOutput:
  assumes "nb_ok nb"
  shows "nb_ok (snd (editCellOutput nb i outs))"
proof (cases "in_bounds nb i \<and> cell_type (cells nb ! nat i) = ''code''")
  case True
  with assms have "cell_ok ((cells nb ! nat i)\<lparr>outputs := Some outs\<rparr>)"
    by (simp add: nth_ok cell_ok_outputs)
  with assms True show ?thesis
    by (simp add: editCellOutput_def guard_iff Let_def nb_ok_def list_all_update)
next
  case False
  with assms show ?thesis by (simp add: editCellOutput_fail)
qed

text \<open>
  Claim C7. When every code cell of a notebook carries both execution fields and no
  other cell carries either, the same holds for the notebook after any call of a
  mutation tool, whatever its arguments: a call with valid arguments returns normally
  with such a notebook, and a call that throws has left the notebook as it was.
\<close>

theorem call_tool_keeps_invariant:
  assumes "nb_ok nb"
  shows "nb_ok (snd (call_tool nb req))
         \<and> (spec_precondition nb req \<longrightarrow> fst (call_tool nb req) = Inr ())"
proof
  from assms show "nb_ok (snd (call_tool nb req))"
    by (cases req)
      (simp_all add: nb_ok_addCell nb_ok_bulkAddCells nb_ok_editCell nb_ok_deleteCell
        nb_ok_changeCellType nb_ok_duplicateCell nb_ok_editMetadata nb_ok_editCellMetadata
        nb_ok_clearCellOutputs nb_ok_clearAllOutputs nb_ok_moveCell nb_ok_splitCell
        nb_ok_mergeCells nb_ok_editCellOutput)
  show "spec_precondition nb req \<longrightarrow> fst (call_tool nb req) = Inr ()"
    by (simp add: call_tool_succeeds)
qed

text \<open>
  Claim C7, witness: the example notebook has the invariant; retyping its code cell to
  markdown is a valid call and gives a notebook with the invariant.
\<close>

theorem call_tool_keeps_invariant_witness:
  "nb_ok ex_nb
   \<and> spec_precondition ex_nb (Notebook_change_cell_type 0 ''markdown'')
   \<and> call_tool ex_nb (Notebook_change_cell_type 0 ''markdown'') =
       (Inr (), ex_nb\<lparr>cells := [ex_code\<lparr>cell_type := ''markdown'', execution_count := None, outputs := None\<rparr>, ex_md]\<rparr>)
   \<and> nb_ok (snd (call_tool ex_nb (Notebook_change_cell_type 0 ''markdown'')))"
proof -
  have h: "nb_ok ex_nb" by code_simp
  have p: "spec_precondition ex_nb (Notebook_change_cell_type 0 ''markdown'')" by code_simp
  have v: "call_tool ex_nb (Notebook_change_cell_type 0 ''markdown'') =
       (Inr (), ex_nb\<lparr>cells := [ex_code\<lparr>cell_type := ''markdown'', execution_count := None, outputs := None\<rparr>, ex_md]\<rparr>)"
    by (simp add: changeCellType_def ex_nb_def Let_def)
  from call_tool_keeps_invariant [OF h, of "Notebook_change_cell_type 0 ''markdown''"] h p v
  show ?thesis by blast
qed

section \<open>Duplicating a cell\<close>

lemma duplicate_loop_closed:
  "0 \<le> i \<Longrightarrow> 0 \<le> ci \<Longrightarrow> nat ci + 1 + nat i \<le> length cs \<Longrightarrow>
   duplicate_loop orig ci cnt i cs =
     take (nat ci + 1 + nat i) cs @ replicate (nat (cnt - i)) (duplicate_of orig)
     @ drop (nat ci + 1 + nat i) cs"
proof (induction orig ci cnt i cs rule: duplicate_loop.induct)
  case (1 originalCell cellIndex cnt i cs)
  let ?d = "duplicate_of originalCell"
  let ?m = "nat cellIndex + 1 + nat i"
  show ?case
  proof (cases "i < cnt")
    case True
    have eq: "(if cell_type (json_copy originalCell) = ''code''
               then (json_copy originalCell)\<lparr>execution_count := Some JNull, outputs := Some (JArr [])\<rparr>
               else json_copy originalCell) = ?d"
      by (simp add: json_copy_def duplicate_of_def)
    from "1.prems" have m: "nat (cellIndex + 1 + i) = ?m" by linarith
    from "1.prems" have "0 \<le> cellIndex + 1 + i" "cellIndex + 1 + i \<le> int (length cs)"
      by linarith+
    then have sp: "snd (splice cs (cellIndex + 1 + i) 0 [?d]) = take ?m cs @ [?d] @ drop ?m cs"
      by (simp add: splice_insert m)
    let ?cs' = "take ?m cs @ [?d] @ drop ?m cs"
    from "1.prems" have m1: "nat cellIndex + 1 + nat (i + 1) = Suc ?m" by linarith
    from "1.prems" have len: "nat cellIndex + 1 + nat (i + 1) \<le> length ?cs'"
      unfolding m1 length_insert_at by simp
    from "1.prems" have i1: "0 \<le> i + 1" by simp
    have tk: "take (Suc ?m) ?cs' = take ?m cs @ [?d]"
      using "1.prems"(3) by simp
    have dr: "drop (Suc ?m) ?cs' = drop ?m cs"
      using "1.prems"(3) by simp
    from True have "nat (cnt - i) = Suc (nat (cnt - (i + 1)))" by linarith
    then have rp: "replicate (nat (cnt - i)) ?d = ?d # replicate (nat (cnt - (i + 1))) ?d"
      by simp
    have "duplicate_loop originalCell cellIndex cnt (i + 1) ?cs' =
            take (Suc ?m) ?cs' @ replicate (nat (cnt - (i + 1))) ?d @ drop (Suc ?m) ?cs'"
      using "1.IH" [OF True refl refl, unfolded eq sp, OF i1 "1.prems"(2) len]
      unfolding m1 .
    then show ?thesis
      unfolding duplicate_loop_step [OF True] sp tk dr rp by simp
  next
    case False
    then have "nat (cnt - i) = 0" by simp
    with False show ?thesis
      by (simp add: duplicate_loop_stop)
  qed
qed

lemma duplicateCell_ok:
  assumes "in_bounds nb i"
  shows "duplicateCell nb i n =
    (Inr (), nb\<lparr>cells := take (Suc (nat i)) (cells nb)
       @ replicate (nat n) (duplicate_of (cells nb ! nat i))
       @ drop (Suc (nat i)) (cells nb)\<rparr>)"
proof -
  from assms have h: "0 \<le> i" "nat i + 1 + nat 0 \<le> length (cells nb)"
    using in_bounds_nat [OF assms] by (simp_all add: in_bounds_def)
  have z: "(0::int) \<le> 0" by simp
  from duplicate_loop_closed [where i = 0 and orig = "cells nb ! nat i" and cnt = n, OF z h] assms
  show ?thesis
    by (simp add: duplicateCell_def guard_iff json_copy_def)
qed

lemma duplicate_of_simps:
  "source (duplicate_of c) = source c"
  "cell_type (duplicate_of c) = cell_type c"
  "metadata (duplicate_of c) = metadata c"
  "cell_type c = ''code'' \<Longrightarrow> outputs (duplicate_of c) = Some (JArr [])"
  "cell_type c = ''code'' \<Longrightarrow> execution_count (duplicate_of c) = Some JNull"
  "cell_type c \<noteq> ''code'' \<Longrightarrow> duplicate_of c = c"
  by (simp_all add: duplicate_of_def)

lemma nth_inserted_block:
  "m \<le> length xs \<Longrightarrow> m \<le> j \<Longrightarrow> j < m + n \<Longrightarrow> (take m xs @ replicate n d @ drop m xs) ! j = d"
  by (auto simp: nth_append)

text \<open>
  Claim C9. For a valid index \<open>i\<close> and a count \<open>n \<ge> 1\<close>, \<^verbatim>\<open>duplicateCell\<close> succeeds and
  there are \<open>n\<close> cells more. The cells up to and including the original are untouched,
  so the original keeps its outputs and execution count; the cells after the original
  follow the copies. Every cell at a position from \<open>i + 1\<close> to \<open>i + n\<close> has the source,
  type and metadata of the original; for a code original it has the outputs \<^verbatim>\<open>[]\<close> and
  the execution count \<^verbatim>\<open>null\<close>, otherwise it equals the original.
\<close>

theorem duplicateCell_spec:
  assumes "in_bounds nb i" "1 \<le> n"
  shows "\<exists>cs'. duplicateCell nb i n = (Inr (), nb\<lparr>cells := cs'\<rparr>)
     \<and> length cs' = length (cells nb) + nat n
     \<and> take (Suc (nat i)) cs' = take (Suc (nat i)) (cells nb)
     \<and> drop (Suc (nat i) + nat n) cs' = drop (Suc (nat i)) (cells nb)
     \<and> (\<forall>j. nat i < j \<and> j \<le> nat i + nat n \<longrightarrow>
           source (cs' ! j) = source (cells nb ! nat i)
         \<and> cell_type (cs' ! j) = cell_type (cells nb ! nat i)
         \<and> metadata (cs' ! j) = metadata (cells nb ! nat i)
         \<and> (cell_type (cells nb ! nat i) = ''code'' \<longrightarrow>
               outputs (cs' ! j) = Some (JArr []) \<and> execution_count (cs' ! j) = Some JNull)
         \<and> (cell_type (cells nb ! nat i) \<noteq> ''code'' \<longrightarrow> cs' ! j = cells nb ! nat i))"
proof -
  let ?cs = "cells nb" and ?m = "Suc (nat i)"
  let ?d = "duplicate_of (?cs ! nat i)"
  let ?cs' = "take ?m ?cs @ replicate (nat n) ?d @ drop ?m ?cs"
  have m: "?m \<le> length ?cs" using in_bounds_nat [OF assms(1)] by simp
  have ok: "duplicateCell nb i n = (Inr (), nb\<lparr>cells := ?cs'\<rparr>)"
    using assms(1) by (rule duplicateCell_ok)
  have len: "length ?cs' = length ?cs + nat n"
    by (simp only: length_insert_at length_replicate)
  have tk: "take ?m ?cs' = take ?m ?cs"
    using m by simp
  have dr: "drop (?m + nat n) ?cs' = drop ?m ?cs"
    using m by simp
  have at: "?cs' ! j = ?d" if "nat i < j \<and> j \<le> nat i + nat n" for j
    using m that by (intro nth_inserted_block) simp_all
  have copies: "\<forall>j. nat i < j \<and> j \<le> nat i + nat n \<longrightarrow>
           source (?cs' ! j) = source (?cs ! nat i)
         \<and> cell_type (?cs' ! j) = cell_type (?cs ! nat i)
         \<and> metadata (?cs' ! j) = metadata (?cs ! nat i)
         \<and> (cell_type (?cs ! nat i) = ''code'' \<longrightarrow>
               outputs (?cs' ! j) = Some (JArr []) \<and> execution_count (?cs' ! j) = Some JNull)
         \<and> (cell_type (?cs ! nat i) \<noteq> ''code'' \<longrightarrow> ?cs' ! j = ?cs ! nat i)"
  proof (intro allI impI)
    fix j
    assume j: "nat i < j \<and> j \<le> nat i + nat n"
    show "source (?cs' ! j) = source (?cs ! nat i)
         \<and> cell_type (?cs' ! j) = cell_type (?cs ! nat i)
         \<and> metadata (?cs' ! j) = metadata (?cs ! nat i)
         \<and> (cell_type (?cs ! nat i) = ''code'' \<longrightarrow>
               outputs (?cs' ! j) = Some (JArr []) \<and> execution_count (?cs' ! j) = Some JNull)
         \<and> (cell_type (?cs ! nat i) \<noteq> ''code'' \<longrightarrow> ?cs' ! j = ?cs ! nat i)"
      unfolding at [OF j] by (simp add: duplicate_of_simps)
  qed
  show ?thesis
    by (intro exI [of _ ?cs'] conjI) (fact ok, fact len, fact tk, fact dr, fact copies)
qed

text \<open>
  Claim C9, witness: two copies of the executed code cell of the example notebook. The
  original keeps its execution count 3 and its output, both copies are reset.
\<close>

theorem duplicateCell_spec_witness:
  "in_bounds ex_nb 0 \<and> (1::int) \<le> 2
   \<and> (\<exists>cs'. duplicateCell ex_nb 0 2 = (Inr (), ex_nb\<lparr>cells := cs'\<rparr>)
        \<and> length cs' = 4
        \<and> take 1 cs' = [ex_code]
        \<and> drop 3 cs' = [ex_md]
        \<and> source (cs' ! 1) = Str ''a\<newline>b'' \<and> source (cs' ! 2) = Str ''a\<newline>b''
        \<and> outputs (cs' ! 1) = Some (JArr []) \<and> outputs (cs' ! 2) = Some (JArr [])
        \<and> execution_count (cs' ! 1) = Some JNull \<and> execution_count (cs' ! 2) = Some JNull)"
proof -
  have h: "in_bounds ex_nb 0" "(1::int) \<le> 2"
    by (simp_all add: in_bounds_def ex_nb_def)
  from duplicateCell_spec [OF h]
  obtain cs' where a: "duplicateCell ex_nb 0 2 = (Inr (), ex_nb\<lparr>cells := cs'\<rparr>)"
    and l: "length cs' = length (cells ex_nb) + nat 2"
    and t: "take (Suc (nat 0)) cs' = take (Suc (nat 0)) (cells ex_nb)"
    and d: "drop (Suc (nat 0) + nat 2) cs' = drop (Suc (nat 0)) (cells ex_nb)"
    and j: "\<And>j. nat 0 < j \<and> j \<le> nat 0 + nat 2 \<Longrightarrow>
           source (cs' ! j) = source (cells ex_nb ! nat 0)
         \<and> (cell_type (cells ex_nb ! nat 0) = ''code'' \<longrightarrow>
               outputs (cs' ! j) = Some (JArr []) \<and> execution_count (cs' ! j) = Some JNull)"
    by blast
  from j [of 1] j [of 2] have
    "source (cs' ! 1) = Str ''a\<newline>b'' \<and> source (cs' ! 2) = Str ''a\<newline>b''
     \<and> outputs (cs' ! 1) = Some (JArr []) \<and> outputs (cs' ! 2) = Some (JArr [])
     \<and> execution_count (cs' ! 1) = Some JNull \<and> execution_count (cs' ! 2) = Some JNull"
    by (simp add: ex_defs)
  moreover from l have "length cs' = 4" by (simp add: ex_defs)
  moreover from t have "take 1 cs' = [ex_code]" by (simp add: ex_defs)
  moreover from d have "drop 3 cs' = [ex_md]" by (simp add: ex_defs numeral_3_eq_3)
  ultimately show ?thesis using h a by blast
qed

text \<open>
  Claim C10. The handler of \<^verbatim>\<open>notebook_duplicate_cell\<close> passes \<^verbatim>\<open>args.count || 1\<close>. With
  the count 0 and a valid index the call is the call with count 1: it returns normally,
  the notebook has exactly one cell more, the copy sits right after the original, and
  the notebook is not the one received.
\<close>

theorem duplicate_count_zero:
  assumes "in_bounds nb i"
  shows "call_tool nb (Notebook_duplicate_cell i (Some 0)) = duplicateCell nb i 1
     \<and> (\<exists>cs'. call_tool nb (Notebook_duplicate_cell i (Some 0)) = (Inr (), nb\<lparr>cells := cs'\<rparr>)
          \<and> length cs' = Suc (length (cells nb))
          \<and> take (Suc (nat i)) cs' = take (Suc (nat i)) (cells nb)
          \<and> drop (Suc (Suc (nat i))) cs' = drop (Suc (nat i)) (cells nb)
          \<and> source (cs' ! Suc (nat i)) = source (cells nb ! nat i)
          \<and> cell_type (cs' ! Suc (nat i)) = cell_type (cells nb ! nat i))
     \<and> snd (call_tool nb (Notebook_duplicate_cell i (Some 0))) \<noteq> nb"
proof -
  have one: "(1::int) \<le> 1" by simp
  have c: "call_tool nb (Notebook_duplicate_cell i (Some 0)) = duplicateCell nb i 1"
    by (simp add: count_or_1_def)
  from duplicateCell_ok [OF assms, of 1]
  have ok: "duplicateCell nb i 1 =
      (Inr (), nb\<lparr>cells := take (Suc (nat i)) (cells nb) @ [duplicate_of (cells nb ! nat i)]
                              @ drop (Suc (nat i)) (cells nb)\<rparr>)"
    by simp
  let ?cs' = "take (Suc (nat i)) (cells nb) @ [duplicate_of (cells nb ! nat i)] @ drop (Suc (nat i)) (cells nb)"
  have m: "Suc (nat i) \<le> length (cells nb)" using in_bounds_nat [OF assms] by simp
  have len: "length ?cs' = Suc (length (cells nb))"
    by (simp only: length_insert_at) simp
  have tk: "take (Suc (nat i)) ?cs' = take (Suc (nat i)) (cells nb)"
    using m by simp
  have dr: "drop (Suc (Suc (nat i))) ?cs' = drop (Suc (nat i)) (cells nb)"
    using m by simp
  have at: "?cs' ! Suc (nat i) = duplicate_of (cells nb ! nat i)"
    using m by (rule nth_insert_at)
  have ne: "snd (duplicateCell nb i 1) \<noteq> nb"
  proof
    assume "snd (duplicateCell nb i 1) = nb"
    then have "cells (snd (duplicateCell nb i 1)) = cells nb" by simp
    then have "length ?cs' = length (cells nb)" by (simp add: ok)
    with len show False by simp
  qed
  have ex: "\<exists>cs'. call_tool nb (Notebook_duplicate_cell i (Some 0)) = (Inr (), nb\<lparr>cells := cs'\<rparr>)
          \<and> length cs' = Suc (length (cells nb))
          \<and> take (Suc (nat i)) cs' = take (Suc (nat i)) (cells nb)
          \<and> drop (Suc (Suc (nat i))) cs' = drop (Suc (nat i)) (cells nb)
          \<and> source (cs' ! Suc (nat i)) = source (cells nb ! nat i)
          \<and> cell_type (cs' ! Suc (nat i)) = cell_type (cells nb ! nat i)"
    unfolding c ok
    by (intro exI [of _ ?cs'] conjI refl len tk dr) (simp_all only: at duplicate_of_simps)
  from c ex ne show ?thesis by (simp only: simp_thms)
qed

text \<open>Claim C10, witness: count 0 on the first example cell gives three cells.\<close>

theorem duplicate_count_zero_witness:
  "in_bounds ex_nb 0
   \<and> call_tool ex_nb (Notebook_duplicate_cell 0 (Some 0)) = duplicateCell ex_nb 0 1
   \<and> call_tool ex_nb (Notebook_duplicate_cell 0 (Some 0)) =
       (Inr (), ex_nb\<lparr>cells := [ex_code, ex_code\<lparr>execution_count := Some JNull, outputs := Some (JArr [])\<rparr>, ex_md]\<rparr>)
   \<and> snd (call_tool ex_nb (Notebook_duplicate_cell 0 (Some 0))) \<noteq> ex_nb"
proof -
  have h: "in_bounds ex_nb 0" by (simp add: in_bounds_def ex_nb_def)
  have v: "call_tool ex_nb (Notebook_duplicate_cell 0 (Some 0)) =
       (Inr (), ex_nb\<lparr>cells := [ex_code, ex_code\<lparr>execution_count := Some JNull, outputs := Some (JArr [])\<rparr>, ex_md]\<rparr>)"
    by (simp add: count_or_1_def duplicateCell_ok [OF h] duplicate_of_def)
       (simp add: ex_defs)
  from duplicate_count_zero [OF h] h v show ?thesis by blast
qed

section \<open>Searching\<close>

lemma includes_str_sublist: "includes_str s q = sublist q s"
  by (induction s) (simp_all add: sublist_Cons_right)

lemma to_lower_char_LF: "(to_lower_char c = LF) = (c = LF)"
proof
  assume a: "to_lower_char c = LF"
  show "c = LF"
  proof (rule ccontr)
    assume n: "c \<noteq> LF"
    let ?n = "of_char c :: nat"
    from a n have r: "(65 \<le> ?n \<and> ?n \<le> 90) \<or> (192 \<le> ?n \<and> ?n \<le> 222 \<and> ?n \<noteq> 215)"
      and e: "char_of (?n + 32) = LF"
      by (auto simp: to_lower_char_def Let_def split: if_splits)
    from e have "of_char (char_of (?n + 32) :: char) = (of_char LF :: nat)" by simp
    then have "(?n + 32) mod 256 = 10" by simp
    with r show False by auto
  qed
next
  assume "c = LF"
  then show "to_lower_char c = LF" by (simp add: to_lower_char_def)
qed

lemma split_on_map:
  assumes "\<And>c. (f c = sep) = (c = sep)"
  shows "split_on sep (map f s) = map (map f) (split_on sep s)"
proof (induction s)
  case Nil
  then show ?case by simp
next
  case (Cons a s)
  then show ?case
    by (cases "split_on sep s") (simp_all add: assms split_on_nonempty)
qed

lemma fold_case_True: "fold_case True = (\<lambda>s. s)"
  by (simp add: fold_case_def fun_eq_iff)

lemma fold_case_False: "fold_case False = map to_lower_char"
  by (simp add: fold_case_def toLowerCase_def fun_eq_iff)

lemma split_on_fold_case:
  "split_on LF (fold_case cs s) = map (fold_case cs) (split_on LF s)"
proof (cases cs)
  case True
  then show ?thesis by (simp add: fold_case_True)
next
  case False
  then show ?thesis
    by (simp add: fold_case_False split_on_map to_lower_char_LF)
qed

lemma LF_image_lower: "(LF \<in> to_lower_char ` A) = (LF \<in> A)"
  by (metis (no_types) image_iff to_lower_char_LF)

lemma LF_fold_case: "(LF \<in> set (fold_case cs q)) = (LF \<in> set q)"
  by (cases cs) (simp_all add: fold_case_True fold_case_False LF_image_lower)

lemma prefix_first_line:
  "prefix q s \<Longrightarrow> sep \<notin> set q \<Longrightarrow> prefix q (hd (split_on sep s))"
proof (induction s arbitrary: q)
  case Nil
  then show ?case by simp
next
  case (Cons a s)
  show ?case
  proof (cases q)
    case Nil
    then show ?thesis by simp
  next
    case (Cons b q')
    with Cons.prems have "a = b" "prefix q' s" "sep \<notin> set q'" "a \<noteq> sep" by auto
    with Cons.IH [of q'] Cons show ?thesis
      by (cases "split_on sep s") (simp_all add: split_on_nonempty)
  qed
qed

lemma first_line_prefix: "prefix (hd (split_on sep s)) s"
proof (induction s)
  case Nil
  then show ?case by simp
next
  case (Cons a s)
  then show ?case
    by (cases "split_on sep s") (simp_all add: split_on_nonempty)
qed

lemma sublist_some_line:
  "sublist q s \<Longrightarrow> sep \<notin> set q \<Longrightarrow> \<exists>l \<in> set (split_on sep s). sublist q l"
proof (induction s)
  case Nil
  then show ?case by simp
next
  case (Cons a s)
  from Cons.prems(1) consider "prefix q (a # s)" | "sublist q s"
    by (auto simp: sublist_Cons_right)
  then show ?case
  proof cases
    case 1
    from prefix_first_line [OF 1 Cons.prems(2)]
    have "sublist q (hd (split_on sep (a # s)))" by (rule prefix_imp_sublist)
    moreover have "hd (split_on sep (a # s)) \<in> set (split_on sep (a # s))"
      by (rule hd_in_set) (rule split_on_nonempty)
    ultimately show ?thesis by blast
  next
    case 2
    with Cons obtain l where l: "l \<in> set (split_on sep s)" "sublist q l" by blast
    obtain l0 ls where sp: "split_on sep s = l0 # ls"
      by (cases "split_on sep s") (simp_all add: split_on_nonempty)
    show ?thesis
    proof (cases "a = sep")
      case True
      with l show ?thesis by auto
    next
      case False
      show ?thesis
      proof (cases "l = l0")
        case True
        with l have "sublist q (a # l0)" by (simp add: sublist_Cons_right)
        with False sp show ?thesis by auto
      next
        case False
        with l sp have "l \<in> set ls" by simp
        with l \<open>a \<noteq> sep\<close> sp show ?thesis by auto
      qed
    qed
  qed
qed

lemma line_sublist: "l \<in> set (split_on sep s) \<Longrightarrow> sublist l s"
proof (induction s arbitrary: l)
  case Nil
  then show ?case by simp
next
  case (Cons a s)
  obtain l0 ls where sp: "split_on sep s = l0 # ls"
    by (cases "split_on sep s") (simp_all add: split_on_nonempty)
  show ?case
  proof (cases "a = sep")
    case True
    with Cons.prems have "l = [] \<or> l \<in> set (split_on sep s)" by auto
    with Cons.IH show ?thesis by (auto simp: sublist_Cons_right)
  next
    case False
    with Cons.prems sp have "l = a # l0 \<or> l \<in> set ls" by auto
    then show ?thesis
    proof
      assume "l = a # l0"
      moreover from first_line_prefix [of sep s] sp have "prefix l0 s" by simp
      ultimately show ?thesis by (simp add: sublist_Cons_right)
    next
      assume "l \<in> set ls"
      with sp have "l \<in> set (split_on sep s)" by simp
      with Cons.IH show ?thesis by (simp add: sublist_Cons_right)
    qed
  qed
qed

lemma scans_agree:
  assumes "LF \<notin> set q"
  shows "list_ex (\<lambda>l. includes_str (fold_case cs l) (fold_case cs q)) (split_on LF s)
         = includes_str (fold_case cs s) (fold_case cs q)"
proof -
  from assms have nl: "LF \<notin> set (fold_case cs q)" by (simp add: LF_fold_case)
  have "list_ex (\<lambda>l. includes_str (fold_case cs l) (fold_case cs q)) (split_on LF s)
        = (\<exists>l \<in> set (split_on LF (fold_case cs s)). sublist (fold_case cs q) l)"
    by (simp add: list_ex_iff split_on_fold_case includes_str_sublist)
  also have "\<dots> = sublist (fold_case cs q) (fold_case cs s)"
    using sublist_some_line [OF _ nl] line_sublist sublist_order.order_trans by blast
  finally show ?thesis by (simp add: includes_str_sublist)
qed

lemma in_searchNotebook:
  "(r \<in> set (searchNotebook nb q cs)) =
     (\<exists>i < length (cells nb). r \<in> set (search_cell q cs i (cells nb ! i)))"
proof
  assume "r \<in> set (searchNotebook nb q cs)"
  then obtain i c where "(i, c) \<in> set (enumerate 0 (cells nb))" "r \<in> set (search_cell q cs i c)"
    by (auto simp: searchNotebook_def)
  then show "\<exists>i < length (cells nb). r \<in> set (search_cell q cs i (cells nb ! i))"
    by (auto simp: in_set_enumerate_eq)
next
  assume "\<exists>i < length (cells nb). r \<in> set (search_cell q cs i (cells nb ! i))"
  then obtain i where i: "i < length (cells nb)" "r \<in> set (search_cell q cs i (cells nb ! i))"
    by blast
  then have "(i, cells nb ! i) \<in> set (enumerate 0 (cells nb))"
    by (simp add: in_set_enumerate_eq)
  with i(2) show "r \<in> set (searchNotebook nb q cs)"
    unfolding searchNotebook_def set_concat set_map by blast
qed

lemma search_cell_index: "r \<in> set (search_cell q cs i c) \<Longrightarrow> res_cell_index r = i"
  by (auto simp: search_cell_def Let_def split: if_splits)

lemma search_cell_reported:
  "(\<exists>r. r \<in> set (search_cell q cs i c)) =
     includes_str (fold_case cs (normalize (source c))) (fold_case cs q)"
  by (simp add: search_cell_def Let_def)

lemma search_cell_matches:
  assumes "r \<in> set (search_cell q cs i c)" "LF \<notin> set q"
  shows "matches r \<noteq> []"
proof -
  let ?lines = "split_on LF (normalize (source c))"
  let ?P = "\<lambda>(line, lineIndex :: nat). includes_str (fold_case cs line) (fold_case cs q)"
  from assms(1) have inc: "includes_str (fold_case cs (normalize (source c))) (fold_case cs q)"
    and m: "matches r = map (\<lambda>(line, lineIndex). \<lparr>line_number = lineIndex + 1, content = trim line\<rparr>)
                          (filter ?P (zip ?lines [0..<length ?lines]))"
    by (auto simp: search_cell_def Let_def split: if_splits)
  from inc scans_agree [OF assms(2), of cs "normalize (source c)"]
  obtain l where "l \<in> set ?lines" "includes_str (fold_case cs l) (fold_case cs q)"
    by (auto simp: list_ex_iff)
  then obtain k where "k < length ?lines" "?lines ! k = l"
    by (auto simp: in_set_conv_nth)
  then have "(l, k) \<in> set (zip ?lines [0..<length ?lines])"
    by (auto simp: set_zip)
  with \<open>includes_str (fold_case cs l) (fold_case cs q)\<close>
  have "filter ?P (zip ?lines [0..<length ?lines]) \<noteq> []"
    by (auto simp: filter_empty_conv)
  with m show ?thesis by simp
qed

text \<open>
  Claim C4, as amended. \<^verbatim>\<open>searchNotebook\<close> reports the cell at an index exactly when its
  normalized source, case-folded unless the search is case sensitive, contains the
  query, folded the same way, as a substring. When the query contains no newline, every
  reported cell has a non-empty match list, and the scan of the lines and the scan of
  the whole source agree on every source.
\<close>

theorem searchNotebook_spec:
  "((\<exists>r \<in> set (searchNotebook nb q cs). res_cell_index r = i) =
      (i < length (cells nb)
       \<and> includes_str (fold_case cs (normalize (source (cells nb ! i)))) (fold_case cs q)))
   \<and> (LF \<notin> set q \<longrightarrow> (\<forall>r \<in> set (searchNotebook nb q cs). matches r \<noteq> []))
   \<and> (LF \<notin> set q \<longrightarrow>
        list_ex (\<lambda>line. includes_str (fold_case cs line) (fold_case cs q)) (split_on LF s)
        = includes_str (fold_case cs s) (fold_case cs q))"
proof (intro conjI impI ballI)
  show "(\<exists>r \<in> set (searchNotebook nb q cs). res_cell_index r = i) =
      (i < length (cells nb)
       \<and> includes_str (fold_case cs (normalize (source (cells nb ! i)))) (fold_case cs q))"
    (is "?l = ?r")
  proof
    assume ?l
    then obtain r j where j: "j < length (cells nb)" "r \<in> set (search_cell q cs j (cells nb ! j))"
      and "res_cell_index r = i"
      by (auto simp: in_searchNotebook)
    with search_cell_index [OF j(2)] have "j = i" by simp
    with j search_cell_reported [of q cs i "cells nb ! i"] show ?r by blast
  next
    assume ?r
    with search_cell_reported [of q cs i "cells nb ! i"]
    obtain r where r: "r \<in> set (search_cell q cs i (cells nb ! i))" by blast
    with \<open>?r\<close> have "r \<in> set (searchNotebook nb q cs)"
      unfolding in_searchNotebook by blast
    with search_cell_index [OF r] show ?l by blast
  qed
next
  fix r
  assume "LF \<notin> set q" "r \<in> set (searchNotebook nb q cs)"
  then show "matches r \<noteq> []"
    unfolding in_searchNotebook using search_cell_matches by blast
next
  assume "LF \<notin> set q"
  then show "list_ex (\<lambda>line. includes_str (fold_case cs line) (fold_case cs q)) (split_on LF s)
        = includes_str (fold_case cs s) (fold_case cs q)"
    by (rule scans_agree)
qed

text \<open>
  Claim C4, witness: the case-insensitive search for \<open>B\<close> in the example notebook
  reports the code cell with its second line, and not the markdown cell.
\<close>

theorem searchNotebook_spec_witness:
  "LF \<notin> set ''B''
   \<and> searchNotebook ex_nb ''B'' False =
       [\<lparr>res_cell_index = 0, res_cell_type = ''code'',
         matches = [\<lparr>line_number = 2, content = ''b''\<rparr>]\<rparr>]
   \<and> matches (hd (searchNotebook ex_nb ''B'' False)) \<noteq> []
   \<and> list_ex (\<lambda>line. includes_str (fold_case False line) (fold_case False ''B''))
        (split_on LF ''a\<newline>b'')
   \<and> includes_str (fold_case False ''a\<newline>b'') (fold_case False ''B'')"
proof -
  have h: "LF \<notin> set ''B''" by simp
  have v: "searchNotebook ex_nb ''B'' False =
       [\<lparr>res_cell_index = 0, res_cell_type = ''code'',
         matches = [\<lparr>line_number = 2, content = ''b''\<rparr>]\<rparr>]"
    by code_simp
  then have m: "hd (searchNotebook ex_nb ''B'' False) \<in> set (searchNotebook ex_nb ''B'' False)"
    by simp
  have i: "includes_str (fold_case False ''a\<newline>b'') (fold_case False ''B'')"
    by code_simp
  from searchNotebook_spec [of ex_nb "''B''" False 0 "''a\<newline>b''"] h v m i
  show ?thesis by blast
qed

text \<open>
  Claim C4 as stated covers every query. The query \<open>a\<newline>b\<close> is a substring of the source
  of the example code cell, so the cell is reported, but no line contains a newline:
  the match list is empty.
\<close>

theorem search_multiline_query_counterexample:
  "includes_str (fold_case True (normalize (source (cells ex_nb ! 0)))) (fold_case True ''a\<newline>b'')
   \<and> searchNotebook ex_nb ''a\<newline>b'' True =
       [\<lparr>res_cell_index = 0, res_cell_type = ''code'', matches = []\<rparr>]
   \<and> searchNotebook ex_nb ''a\<newline>b'' False =
       [\<lparr>res_cell_index = 0, res_cell_type = ''code'', matches = []\<rparr>]"
  by code_simp

section \<open>The outline of a code cell\<close>

lemma match_multiline_first:
  "match_multiline m b s = first_match m (line_starts_from b s)"
  by (induction s arbitrary: b) (auto simp: first_match_def split: option.splits)

lemma first_match_None: "(first_match m ts = None) = (\<forall>t \<in> set ts. m t = None)"
  by (induction ts) (auto simp: first_match_def split: option.splits)

lemma first_match_Some:
  "first_match m ts = Some n \<Longrightarrow>
   \<exists>k < length ts. m (ts ! k) = Some n \<and> (\<forall>j < k. m (ts ! j) = None)"
proof (induction ts)
  case Nil
  then show ?case by (simp add: first_match_def)
next
  case (Cons t ts)
  show ?case
  proof (cases "m t")
    case None
    with Cons.prems have "first_match m ts = Some n"
      by (simp add: first_match_def)
    from Cons.IH [OF this] obtain k where k: "k < length ts" "m (ts ! k) = Some n"
      "\<forall>j < k. m (ts ! j) = None" by blast
    with None have "\<forall>j < Suc k. m ((t # ts) ! j) = None"
      by (auto simp: nth_Cons split: nat.splits)
    with k show ?thesis by (intro exI [of _ "Suc k"]) simp
  next
    case (Some a)
    with Cons.prems have "a = n" by (simp add: first_match_def)
    with Some show ?thesis by (intro exI [of _ 0]) simp
  qed
qed

lemma drop_Cons_pos: "0 < k \<Longrightarrow> drop k (x # xs) = drop (k - 1) xs"
  by (cases k) simp_all

lemma line_starts_from_lines:
  assumes "CHR 0x0D \<notin> set s"
  shows "line_starts_from b s =
     map (\<lambda>k. join [LF] (drop k (split_on LF s)))
       [(if b then 0 else 1)..<length (split_on LF s)]"
  using assms
proof (induction s arbitrary: b)
  case Nil
  then show ?case by simp
next
  case (Cons c cs)
  obtain l0 ls where sp: "split_on LF cs = l0 # ls"
    by (cases "split_on LF cs") (simp_all add: split_on_nonempty)
  from Cons.prems have cr: "CHR 0x0D \<notin> set cs" "c \<noteq> CHR 0x0D" by auto
  have whole: "join [LF] (split_on LF (c # cs)) = c # cs" by (rule join_split_on)
  show ?case
  proof (cases "c = LF")
    case True
    then have L: "split_on LF (c # cs) = [] # split_on LF cs" by simp
    have tl: "line_starts_from True cs =
        map (\<lambda>k. join [LF] (drop k (split_on LF (c # cs)))) [1..<length (split_on LF (c # cs))]"
    proof -
      have "[1..<length (split_on LF (c # cs))] = map Suc [0..<length (split_on LF cs)]"
        unfolding L by (simp add: map_Suc_upt)
      then show ?thesis
        unfolding Cons.IH [OF cr(1), of True] L by (simp add: comp_def)
    qed
    show ?thesis
    proof (cases b)
      case True
      have "[0..<length (split_on LF (c # cs))] = 0 # [1..<length (split_on LF (c # cs))]"
        unfolding L by (simp add: upt_rec)
      with True \<open>c = LF\<close> tl whole show ?thesis
        by (simp add: is_line_terminator_def)
    next
      case False
      with \<open>c = LF\<close> tl show ?thesis
        by (simp add: is_line_terminator_def)
    qed
  next
    case False
    with sp have L: "split_on LF (c # cs) = (c # l0) # ls" by simp
    from False cr have nt: "\<not> is_line_terminator c" by (simp add: is_line_terminator_def)
    have tl: "line_starts_from False cs =
        map (\<lambda>k. join [LF] (drop k (split_on LF (c # cs)))) [1..<length (split_on LF (c # cs))]"
    proof -
      have len: "length ((c # l0) # ls) = length (l0 # ls)" by simp
      show ?thesis
        unfolding Cons.IH [OF cr(1), of False] L sp len if_False
      proof (rule map_cong [OF refl])
        fix k
        assume "k \<in> set [1..<length (l0 # ls)]"
        then have "0 < k" unfolding set_upt atLeastLessThan_iff by linarith
        then show "join [LF] (drop k (l0 # ls)) = join [LF] (drop k ((c # l0) # ls))"
          by (simp only: drop_Cons_pos)
      qed
    qed
    show ?thesis
    proof (cases b)
      case True
      have "[0..<length (split_on LF (c # cs))] = 0 # [1..<length (split_on LF (c # cs))]"
        unfolding L by (simp add: upt_rec)
      with True nt tl whole show ?thesis by simp
    next
      case False
      with nt tl show ?thesis by simp
    qed
  qed
qed

text \<open>
  Claim C5, as amended. For a code cell the title suffix is \<open>- def NAME()\<close> whenever the
  function pattern matches at some line start of the source, with the name captured at
  the first such line start, also when the class pattern matches at an earlier one; it
  is \<open>- class NAME\<close>, from the first line start where the class pattern matches, only
  when the function pattern matches nowhere; and it is empty when neither pattern
  matches. In a source without carriage returns the line starts are the starts of the
  lines that \<^verbatim>\<open>split('\n')\<close> gives, each taken with the rest of the source.
\<close>

theorem title_suffix_code:
  assumes "cell_type c = ''code''"
  shows "title_suffix c =
      (case first_match (match_keyword_at ''def'') (line_starts (normalize (source c))) of
         Some n \<Rightarrow> '' - def '' @ n @ ''()''
       | None \<Rightarrow>
          (case first_match (match_keyword_at ''class'') (line_starts (normalize (source c))) of
             Some n \<Rightarrow> '' - class '' @ n
           | None \<Rightarrow> []))
    \<and> (first_match (match_keyword_at kw) ts = Some n \<longrightarrow>
         (\<exists>k < length ts. match_keyword_at kw (ts ! k) = Some n
            \<and> (\<forall>j < k. match_keyword_at kw (ts ! j) = None)))
    \<and> ((\<forall>t \<in> set (line_starts (normalize (source c))).
           match_keyword_at ''def'' t = None \<and> match_keyword_at ''class'' t = None)
         \<longrightarrow> title_suffix c = [])
    \<and> (CHR 0x0D \<notin> set (normalize (source c)) \<longrightarrow>
         line_starts (normalize (source c)) =
           map (\<lambda>k. join [LF] (drop k (split_on LF (normalize (source c)))))
             [0..<length (split_on LF (normalize (source c)))])"
proof -
  let ?src = "normalize (source c)"
  from assms have nm: "cell_type c \<noteq> ''markdown''" by simp
  have form: "title_suffix c =
      (case first_match (match_keyword_at ''def'') (line_starts ?src) of
         Some n \<Rightarrow> '' - def '' @ n @ ''()''
       | None \<Rightarrow>
          (case first_match (match_keyword_at ''class'') (line_starts ?src) of
             Some n \<Rightarrow> '' - class '' @ n
           | None \<Rightarrow> []))"
    unfolding title_suffix_def Let_def match_multiline_first line_starts_def [symmetric]
    using assms nm by simp
  have none: "title_suffix c = []"
    if "\<forall>t \<in> set (line_starts ?src).
           match_keyword_at ''def'' t = None \<and> match_keyword_at ''class'' t = None"
  proof -
    from that have "first_match (match_keyword_at ''def'') (line_starts ?src) = None"
      "first_match (match_keyword_at ''class'') (line_starts ?src) = None"
      by (simp_all add: first_match_None)
    then show ?thesis unfolding form by simp
  qed
  have lines: "line_starts ?src =
      map (\<lambda>k. join [LF] (drop k (split_on LF ?src))) [0..<length (split_on LF ?src)]"
    if "CHR 0x0D \<notin> set ?src"
    using line_starts_from_lines [OF that, of True] by (simp add: line_starts_def)
  show ?thesis
    using form first_match_Some [of "match_keyword_at kw" ts n] none lines
    by (intro conjI impI) blast+
qed

text \<open>
  Claim C5, witness: the example code cell matches neither pattern and gets no suffix;
  in the cell with a class on line 0 and a function on line 1 the function pattern
  first matches at the second line start.
\<close>

theorem title_suffix_code_witness:
  "cell_type ex_code = ''code''
   \<and> CHR 0x0D \<notin> set (normalize (source ex_code))
   \<and> line_starts (normalize (source ex_code)) = [''a\<newline>b'', ''b'']
   \<and> list_all (\<lambda>t. match_keyword_at ''def'' t = None \<and> match_keyword_at ''class'' t = None)
        (line_starts (normalize (source ex_code)))
   \<and> title_suffix ex_code = []
   \<and> cell_type ex_class_then_def = ''code''
   \<and> line_starts (normalize (source ex_class_then_def)) = [''class A:\<newline>def f(): pass'', ''def f(): pass'']
   \<and> first_match (match_keyword_at ''def'') (line_starts (normalize (source ex_class_then_def))) = Some ''f''
   \<and> match_keyword_at ''def'' (line_starts (normalize (source ex_class_then_def)) ! 0) = None
   \<and> match_keyword_at ''def'' (line_starts (normalize (source ex_class_then_def)) ! 1) = Some ''f''
   \<and> title_suffix ex_class_then_def = '' - def f()''"
proof -
  have h1: "cell_type ex_code = ''code''" by (simp add: ex_code_def)
  have ls: "line_starts (normalize (source ex_code)) = [''a\<newline>b'', ''b'']"
    by code_simp
  have h2: "list_all (\<lambda>t. match_keyword_at ''def'' t = None \<and> match_keyword_at ''class'' t = None)
        (line_starts (normalize (source ex_code)))"
    by code_simp
  have h3: "CHR 0x0D \<notin> set (normalize (source ex_code))" by (simp add: ex_code_def)
  have g1: "cell_type ex_class_then_def = ''code''" by (simp add: ex_class_then_def_def)
  have g2: "first_match (match_keyword_at ''def'') (line_starts (normalize (source ex_class_then_def))) = Some ''f''"
    by code_simp
  have g3: "CHR 0x0D \<notin> set (normalize (source ex_class_then_def))"
    by (simp add: ex_class_then_def_def)
  note a = title_suffix_code [OF h1, of "''def''" "[]" "[]"]
  note b = title_suffix_code [OF g1, of "''def''" "line_starts (normalize (source ex_class_then_def))" "''f''"]
  from h2 have h2': "\<forall>t \<in> set (line_starts (normalize (source ex_code))).
      match_keyword_at ''def'' t = None \<and> match_keyword_at ''class'' t = None"
    by (simp only: list_all_iff)
  from a h2' have c1: "title_suffix ex_code = []" by blast
  from b g2 obtain k where k: "k < length (line_starts (normalize (source ex_class_then_def)))"
      "match_keyword_at ''def'' (line_starts (normalize (source ex_class_then_def)) ! k) = Some ''f''"
      "\<forall>j < k. match_keyword_at ''def'' (line_starts (normalize (source ex_class_then_def)) ! j) = None"
    by blast
  from b g3 have ls2: "line_starts (normalize (source ex_class_then_def)) =
      [''class A:\<newline>def f(): pass'', ''def f(): pass'']"
    by (simp add: ex_class_then_def_def upt_rec)
  have n0: "match_keyword_at ''def'' ''class A:\<newline>def f(): pass'' = None"
    by code_simp
  from k(1) have "k = 0 \<or> k = 1" unfolding ls2 by auto
  with k(2) n0 have k1: "k = 1" unfolding ls2 by auto
  from k(2) k1 have c2: "match_keyword_at ''def'' (line_starts (normalize (source ex_class_then_def)) ! 1) = Some ''f''"
    by simp
  from k(3) k1 have c0: "match_keyword_at ''def'' (line_starts (normalize (source ex_class_then_def)) ! 0) = None"
    by simp
  from b g2 have c3: "title_suffix ex_class_then_def = '' - def f()''" by simp
  show ?thesis
    by (intro conjI) (fact h1, fact h3, fact ls, fact h2, fact c1, fact g1, fact ls2, fact g2,
      fact c0, fact c2, fact c3)
qed

text \<open>
  Claim C5 as stated takes the pattern that matches on the earliest line. In the cell
  \<open>class A:\<close>, \<open>def f(): pass\<close> the class pattern matches on line 0 and the function
  pattern only on line 1, and the outline names the function.
\<close>

theorem outline_prefers_def_counterexample:
  "cell_type ex_class_then_def = ''code''
   \<and> split_on LF (normalize (source ex_class_then_def)) = [''class A:'', ''def f(): pass'']
   \<and> match_keyword_at ''class'' ''class A:'' = Some ''A''
   \<and> match_keyword_at ''def'' ''class A:'' = None
   \<and> match_keyword_at ''def'' ''def f(): pass'' = Some ''f''
   \<and> title_suffix ex_class_then_def = '' - def f()''
   \<and> outline_entry 0 ex_class_then_def = ''Cell 0 (code) - def f() (2 lines)''"
  by code_simp

end
